theory Spec2Isabelle
  imports Complex_Main "HOL-Library.Word"
begin

unbundle bit_operations_syntax

section \<open>Bytes and C strings\<close>

text \<open>
  A \<open>char\<close> of the program is a byte. A \<open>const char *\<close> argument is modelled as the list
  of bytes it points at; the program reads it up to the first zero byte (the terminator),
  so every loop over a C string below stops at the end of the list or at a zero byte,
  whichever comes first. A \<open>std::string\<close> is the list of its bytes.
\<close>

type_synonym byte = "8 word"

definition c_str :: "byte list \<Rightarrow> byte list" where
  "c_str str = takeWhile (\<lambda>ch. ch \<noteq> 0) str"

section \<open>UTF-8 lead bytes, character count and character split\<close>

definition u8_is_lead :: "byte \<Rightarrow> bool" where
  "u8_is_lead ch = (ch AND 0xC0 \<noteq> 0x80)"

text \<open>The loop of \<open>u8_len\<close>: \<open>len\<close> is the counter, the list is what \<open>str\<close> points at.\<close>

fun u8_len_loop :: "nat \<Rightarrow> byte list \<Rightarrow> nat" where
  "u8_len_loop len [] = len"
| "u8_len_loop len (ch # str) =
     (if ch = 0 then len
      else u8_len_loop (if u8_is_lead ch then len + 1 else len) str)"

definition u8_len :: "byte list \<Rightarrow> nat" where
  "u8_len str = u8_len_loop 0 str"

text \<open>
  The loop of \<open>u8_split_chars\<close>: \<open>chars\<close> is the output vector, \<open>s\<close> the character
  being collected, the list is what \<open>pch\<close> points at.
\<close>

fun u8_split_loop :: "byte list list \<Rightarrow> byte list \<Rightarrow> byte list \<Rightarrow> byte list list \<times> byte list" where
  "u8_split_loop chars s [] = (chars, s)"
| "u8_split_loop chars s (ch # pch) =
     (if ch = 0 then (chars, s)
      else if u8_is_lead ch \<and> s \<noteq> [] then u8_split_loop (chars @ [s]) [ch] pch
      else u8_split_loop chars (s @ [ch]) pch)"

text \<open>\<open>u8_split_chars\<close> appends to the vector it is given; every caller passes a fresh one.\<close>

definition u8_split_chars :: "byte list list \<Rightarrow> byte list \<Rightarrow> byte list list" where
  "u8_split_chars chars str =
     (case u8_split_loop chars [] str of
        (chars', s) \<Rightarrow> if s \<noteq> [] then chars' @ [s] else chars')"

section \<open>Escaping and unescaping\<close>

text \<open>The \<open>switch\<close> of \<open>mstr_escape\<close>: what one byte appends to \<open>ret\<close>.\<close>

definition escape_char :: "byte \<Rightarrow> byte list" where
  "escape_char ch =
     (if ch = 0x09 then [0x5C, 0x74]
      else if ch = 0x0A then [0x5C, 0x6E]
      else if ch = 0x0D then [0x5C, 0x72]
      else if ch = 0x0C then [0x5C, 0x66]
      else if ch = 0x5C then [0x5C, 0x5C]
      else [ch])"

fun mstr_escape_loop :: "byte list \<Rightarrow> byte list \<Rightarrow> byte list" where
  "mstr_escape_loop ret [] = ret"
| "mstr_escape_loop ret (ch # text) = mstr_escape_loop (ret @ escape_char ch) text"

definition mstr_escape :: "byte list \<Rightarrow> byte list" where
  "mstr_escape text = mstr_escape_loop [] text"

text \<open>The inner \<open>switch\<close> of \<open>mstr_unescape\<close>: the byte an escaped byte stands for.\<close>

definition unescape_char :: "byte \<Rightarrow> byte" where
  "unescape_char ch =
     (if ch = 0x74 then 0x09
      else if ch = 0x6E then 0x0A
      else if ch = 0x72 then 0x0D
      else if ch = 0x66 then 0x0C
      else if ch = 0x5C then 0x5C
      else ch)"

text \<open>
  The loop of \<open>mstr_unescape\<close> with its flag \<open>escaping\<close>. A backslash that is the last
  byte of the text is copied and the loop is left.
\<close>

fun mstr_unescape_loop :: "bool \<Rightarrow> byte list \<Rightarrow> byte list \<Rightarrow> byte list" where
  "mstr_unescape_loop escaping ret [] = ret"
| "mstr_unescape_loop escaping ret (ch # text) =
     (if escaping then mstr_unescape_loop False (ret @ [unescape_char ch]) text
      else if ch = 0x5C then
        (if text = [] then ret @ [ch] else mstr_unescape_loop True ret text)
      else mstr_unescape_loop escaping (ret @ [ch]) text)"

definition mstr_unescape :: "byte list \<Rightarrow> byte list" where
  "mstr_unescape text = mstr_unescape_loop False [] text"

section \<open>Character classes\<close>

text \<open>
  \<open>u8_contains_one_of\<close> splits the character set and compares each of its characters
  with the C string at \<open>ptr\<close>.
\<close>

definition u8_contains_one_of :: "byte list \<Rightarrow> byte list \<Rightarrow> bool" where
  "u8_contains_one_of ptr char_set =
     list_ex (\<lambda>ch. ch = c_str ptr) (u8_split_chars [] char_set)"

text \<open>The character sets are the UTF-8 bytes of the string literals of the program.\<close>

definition u8_is_space :: "byte list \<Rightarrow> bool" where
  "u8_is_space ptr = u8_contains_one_of ptr [0x20, 0xE3, 0x80, 0x80]"

definition u8_is_paren_type_1 :: "byte list \<Rightarrow> bool" where
  "u8_is_paren_type_1 ptr = u8_contains_one_of ptr
     [0x28, 0xEF, 0xBC, 0x88, 0x5B, 0xEF, 0xBC, 0xBB, 0xE3, 0x80, 0x94, 0xE3, 0x80, 0x90,
      0xEF, 0xBD, 0x9B, 0xE3, 0x80, 0x88, 0xE3, 0x80, 0x8A, 0xE2, 0x89, 0xAA, 0xEF, 0xBD,
      0x9F, 0xE2, 0x81, 0x85, 0xE3, 0x80, 0x96, 0xE3, 0x80, 0x98, 0xC2, 0xAB, 0xC2, 0xBB,
      0xE3, 0x80, 0x99, 0xE3, 0x80, 0x97, 0xE2, 0x81, 0x86, 0xEF, 0xBD, 0xA0, 0xE2, 0x89,
      0xAB, 0xE3, 0x80, 0x8B, 0xE3, 0x80, 0x89, 0xEF, 0xBD, 0x9D, 0xE3, 0x80, 0x91, 0xE3,
      0x80, 0x95, 0xEF, 0xBC, 0xBD, 0x5D, 0xEF, 0xBC, 0x89, 0x29]"

definition u8_is_paren_type_2 :: "byte list \<Rightarrow> bool" where
  "u8_is_paren_type_2 ptr = u8_contains_one_of ptr [0xE3, 0x80, 0x8C, 0xE3, 0x80, 0x8E]"

definition u8_is_paren_type_3 :: "byte list \<Rightarrow> bool" where
  "u8_is_paren_type_3 ptr = u8_contains_one_of ptr [0xE3, 0x80, 0x8F, 0xE3, 0x80, 0x8D]"

definition u8_is_comma_period :: "byte list \<Rightarrow> bool" where
  "u8_is_comma_period ptr = u8_contains_one_of ptr
     [0xE3, 0x80, 0x81, 0xE3, 0x80, 0x82, 0xEF, 0xBC, 0x8C, 0xEF, 0xBC, 0x8E]"

definition u8_is_hyphen_dash :: "byte list \<Rightarrow> bool" where
  "u8_is_hyphen_dash ptr = u8_contains_one_of ptr
     [0x2D, 0xEF, 0xBC, 0x8D, 0xE2, 0x80, 0x95, 0xE3, 0x83, 0xBC, 0x3D, 0xEF, 0xBC, 0x9D,
      0xE2, 0x89, 0xA1, 0xEF, 0xBD, 0x9E]"

definition u8_is_small_kana :: "byte list \<Rightarrow> bool" where
  "u8_is_small_kana ptr = u8_contains_one_of ptr
     [0xE3, 0x81, 0x81, 0xE3, 0x81, 0x83, 0xE3, 0x81, 0x85, 0xE3, 0x81, 0x87, 0xE3, 0x81,
      0x89, 0xE3, 0x81, 0xA3, 0xE3, 0x82, 0x83, 0xE3, 0x82, 0x85, 0xE3, 0x82, 0x87, 0xE3,
      0x82, 0x8E, 0xE3, 0x82, 0x95, 0xE3, 0x82, 0x96, 0xE3, 0x82, 0xA1, 0xE3, 0x82, 0xA3,
      0xE3, 0x82, 0xA5, 0xE3, 0x82, 0xA7, 0xE3, 0x82, 0xA9, 0xE3, 0x83, 0xB5, 0xE3, 0x87,
      0xB0, 0xE3, 0x83, 0xB6, 0xE3, 0x87, 0xB1, 0xE3, 0x87, 0xB2, 0xE3, 0x83, 0x83, 0xE3,
      0x87, 0xB3, 0xE3, 0x87, 0xB4, 0xE3, 0x87, 0xB5, 0xE3, 0x87, 0xB6, 0xE3, 0x87, 0xB7,
      0xE3, 0x87, 0xB8, 0xE3, 0x87, 0xB9, 0xE3, 0x87, 0xBA, 0xE3, 0x83, 0xA3, 0xE3, 0x83,
      0xA5, 0xE3, 0x83, 0xA7, 0xE3, 0x87, 0xBB, 0xE3, 0x87, 0xBC, 0xE3, 0x87, 0xBD, 0xE3,
      0x87, 0xBE, 0xE3, 0x87, 0xBF, 0xE3, 0x83, 0xAE]"

section \<open>The text metrics of the graphics library\<close>

text \<open>
  The program measures text through the Cairo library, which is not part of it. The model
  takes the library's answers as data: a drawing context holds the font size that
  \<open>cairo_set_font_size\<close> stored last and, for the selected font, the extents of a string
  and of the font at every size. In this embedding a \<open>double\<close> is a real number: it
  computes without rounding, overflow or underflow, and a quotient whose divisor is zero,
  an infinity or a NaN in the program, has no counterpart in it; the theorems about
  quotients assume the divisors positive. Where the rounding or a division by zero
  decides, the horizontal fit solver is embedded a second time, in binary64 arithmetic
  (\<open>pdf_scaling_h_text_b64\<close> below).
\<close>

record text_extents_t =
  te_x_bearing :: real
  te_y_bearing :: real
  te_width :: real
  te_height :: real
  te_x_advance :: real
  te_y_advance :: real

record font_extents_t =
  fe_ascent :: real
  fe_descent :: real
  fe_height :: real
  fe_max_x_advance :: real
  fe_max_y_advance :: real

record cairo_t =
  cr_font_size :: real
  cr_text_extents :: "real \<Rightarrow> byte list \<Rightarrow> text_extents_t"
  cr_font_extents :: "real \<Rightarrow> font_extents_t"

definition cairo_set_font_size :: "cairo_t \<Rightarrow> real \<Rightarrow> cairo_t" where
  "cairo_set_font_size cr fsize = cr\<lparr>cr_font_size := fsize\<rparr>"

definition cairo_text_extents :: "cairo_t \<Rightarrow> byte list \<Rightarrow> text_extents_t" where
  "cairo_text_extents cr utf8 = cr_text_extents cr (cr_font_size cr) (c_str utf8)"

definition cairo_font_extents :: "cairo_t \<Rightarrow> font_extents_t" where
  "cairo_font_extents cr = cr_font_extents cr (cr_font_size cr)"

text \<open>
  \<open>pdf_is_font_japanese\<close>, \<open>pdf_is_font_chinese\<close> and \<open>pdf_is_font_korean\<close> measure one
  glyph at size 30 between \<open>cairo_save\<close> and \<open>cairo_restore\<close>, which leave the context
  as it was.
\<close>

definition pdf_is_font_japanese :: "cairo_t \<Rightarrow> bool" where
  "pdf_is_font_japanese cr =
     (let extents = cairo_text_extents (cairo_set_font_size cr 30) [0xE3, 0x81, 0x82]
      in \<not> (te_width extents < 1 \<or> te_height extents < 1))"

definition pdf_is_font_chinese :: "cairo_t \<Rightarrow> bool" where
  "pdf_is_font_chinese cr =
     (let extents = cairo_text_extents (cairo_set_font_size cr 30) [0xE6, 0xB2, 0x89]
      in \<not> (te_width extents < 1 \<or> te_height extents < 1))"

definition pdf_is_font_korean :: "cairo_t \<Rightarrow> bool" where
  "pdf_is_font_korean cr =
     (let extents = cairo_text_extents (cairo_set_font_size cr 30) [0xEC, 0x9E, 0x91]
      in \<not> (te_width extents < 1 \<or> te_height extents < 1))"

text \<open>
  \<open>pdf_get_h_text_width_and_height\<close>: the loop over the characters, with the running
  \<open>text_width\<close> and \<open>text_height\<close>; both start at 0.
\<close>

fun pdf_get_h_loop ::
  "cairo_t \<Rightarrow> font_extents_t \<Rightarrow> real \<Rightarrow> real \<Rightarrow> byte list list \<Rightarrow> real \<times> real" where
  "pdf_get_h_loop cr font_extents text_width text_height [] = (text_width, text_height)"
| "pdf_get_h_loop cr font_extents text_width text_height (text_char # chars) =
     (let extents = cairo_text_extents cr text_char;
          text_height1 = (if text_height < te_height extents then te_height extents
                          else text_height);
          text_height2 = (if text_height1 < fe_height font_extents then fe_height font_extents
                          else text_height1)
      in pdf_get_h_loop cr font_extents (text_width + te_x_advance extents) text_height2 chars)"

definition pdf_get_h_text_width_and_height :: "cairo_t \<Rightarrow> byte list list \<Rightarrow> real \<times> real" where
  "pdf_get_h_text_width_and_height cr chars =
     pdf_get_h_loop cr (cairo_font_extents cr) 0 0 chars"

definition SMALL_KANA_RATIO :: real where
  "SMALL_KANA_RATIO = 0.55"

fun pdf_get_v_loop :: "cairo_t \<Rightarrow> real \<Rightarrow> real \<Rightarrow> byte list list \<Rightarrow> real \<times> real" where
  "pdf_get_v_loop cr text_width text_height [] = (text_width, text_height)"
| "pdf_get_v_loop cr text_width text_height (text_char # chars) =
     (let extents = cairo_text_extents cr text_char in
      if u8_is_space text_char then
        pdf_get_v_loop cr
          (if text_width < te_width extents then te_width extents else text_width)
          (text_height + te_x_advance extents) chars
      else if u8_is_small_kana text_char then
        pdf_get_v_loop cr
          (if text_width < te_width extents * SMALL_KANA_RATIO
           then te_width extents * SMALL_KANA_RATIO else text_width)
          (text_height + te_height extents * SMALL_KANA_RATIO) chars
      else if u8_is_hyphen_dash text_char then
        pdf_get_v_loop cr
          (if text_width < te_height extents then te_height extents else text_width)
          (text_height + te_width extents) chars
      else if u8_is_paren_type_1 text_char \<or> u8_is_paren_type_2 text_char
              \<or> u8_is_paren_type_3 text_char then
        pdf_get_v_loop cr
          (if text_width < te_height extents then te_height extents else text_width)
          (text_height + te_width extents) chars
      else
        pdf_get_v_loop cr
          (if text_width < te_width extents then te_width extents else text_width)
          (text_height + te_height extents) chars)"

definition pdf_get_v_text_width_and_height :: "cairo_t \<Rightarrow> byte list list \<Rightarrow> real \<times> real" where
  "pdf_get_v_text_width_and_height cr chars = pdf_get_v_loop cr 0 0 chars"

section \<open>The fit solvers\<close>

text \<open>
  A solver returns its \<open>bool\<close> together with the drawing context as it leaves it and its
  three reference parameters \<open>font_size\<close>, \<open>scale_x\<close>, \<open>scale_y\<close>, which it has written
  also when it returns \<open>false\<close>. The search loop \<open>for (;;)\<close> has no bound of its own, so
  it is a partial function: \<open>None\<close> means that the loop never ends.
\<close>

type_synonym scaling = "bool \<times> cairo_t \<times> real \<times> real \<times> real"

text \<open>
  In \<open>pdf_scaling_h_text\<close> the local variable \<open>extents\<close> is declared and never assigned
  (the measuring function fills a variable of its own), and the loop tests
  \<open>!extents.width || !extents.height\<close>. What the test reads is whatever the stack holds;
  the model takes it as the parameter \<open>extents\<close>.
\<close>

partial_function (option) pdf_scaling_h_loop ::
  "byte list list \<Rightarrow> real \<Rightarrow> real \<Rightarrow> real \<Rightarrow> text_extents_t
     \<Rightarrow> cairo_t \<Rightarrow> real \<Rightarrow> real \<Rightarrow> real \<Rightarrow> scaling option" where
  "pdf_scaling_h_loop chars width height threshold extents cr font_size scale_x scale_y =
     (let cr1 = cairo_set_font_size cr font_size;
          text_width = fst (pdf_get_h_text_width_and_height cr1 chars);
          text_height = snd (pdf_get_h_text_width_and_height cr1 chars)
      in if font_size \<ge> 10000 \<or> te_width extents = 0 \<or> te_height extents = 0 then
           Some (False, cr1, font_size, scale_x, scale_y)
         else if text_width * scale_x < width * 0.9 \<and> text_height * scale_y < height * 0.9 then
           pdf_scaling_h_loop chars width height threshold extents cr1 (font_size * 1.1) scale_x scale_y
         else if threshold < 1.1 then
           Some (True, cr1, font_size, scale_x, scale_y)
         else if text_width * scale_x < width * 0.9 then
           pdf_scaling_h_loop chars width height threshold extents cr1 font_size (scale_x * 1.1) scale_y
         else if text_height * scale_y < height * 0.9 then
           pdf_scaling_h_loop chars width height threshold extents cr1 font_size scale_x (scale_y * 1.1)
         else
           Some (True, cr1, font_size, scale_x, scale_y))"

text \<open>The two tests of the aspect ratio that follow the loop of \<open>pdf_scaling_h_text\<close>.\<close>

definition h_ratio_exceeds :: "real \<Rightarrow> real \<Rightarrow> real \<Rightarrow> real \<Rightarrow> real \<Rightarrow> real \<Rightarrow> bool" where
  "h_ratio_exceeds threshold text_width text_height len scale_x scale_y =
     ((text_width * scale_x / len) / (text_height * scale_y) > threshold)"

definition h_inverse_exceeds :: "real \<Rightarrow> real \<Rightarrow> real \<Rightarrow> real \<Rightarrow> real \<Rightarrow> real \<Rightarrow> bool" where
  "h_inverse_exceeds threshold text_width text_height len scale_x scale_y =
     ((text_height * scale_y) / (text_width * scale_x / len) > threshold)"

text \<open>The two independent \<open>if\<close> statements: the second one reads the \<open>scale_x\<close> of the first.\<close>

definition pdf_scaling_h_aspect ::
  "real \<Rightarrow> real \<Rightarrow> real \<Rightarrow> real \<Rightarrow> real \<Rightarrow> real \<Rightarrow> real \<times> real" where
  "pdf_scaling_h_aspect threshold text_width text_height len scale_x scale_y =
     (let scale_x1 =
            (if h_ratio_exceeds threshold text_width text_height len scale_x scale_y
             then threshold * (text_height * scale_y) * len / text_width else scale_x);
          scale_y1 =
            (if h_inverse_exceeds threshold text_width text_height len scale_x1 scale_y
             then threshold * (text_width * scale_x1 / len) / text_height else scale_y)
      in (scale_x1, scale_y1))"

definition pdf_scaling_h_text ::
  "cairo_t \<Rightarrow> byte list \<Rightarrow> real \<Rightarrow> real \<Rightarrow> real \<Rightarrow> text_extents_t \<Rightarrow> scaling option" where
  "pdf_scaling_h_text cr utf8_text width height threshold extents =
     (if c_str utf8_text = [] then Some (False, cr, 10, 1, 1)
      else
        let chars = u8_split_chars [] utf8_text in
        case pdf_scaling_h_loop chars width height threshold extents cr 10 1 1 of
          None \<Rightarrow> None
        | Some (False, cr1, font_size, scale_x, scale_y) \<Rightarrow>
            Some (False, cr1, font_size, scale_x, scale_y)
        | Some (True, cr1, font_size, scale_x, scale_y) \<Rightarrow>
            let len = real (u8_len utf8_text);
                cr2 = cairo_set_font_size cr1 font_size;
                text_width = fst (pdf_get_h_text_width_and_height cr2 chars);
                text_height = snd (pdf_get_h_text_width_and_height cr2 chars);
                scales = pdf_scaling_h_aspect threshold text_width text_height len scale_x scale_y
            in Some (True, cr2, font_size, fst scales, snd scales))"

partial_function (option) pdf_scaling_v_loop ::
  "byte list list \<Rightarrow> real \<Rightarrow> real \<Rightarrow> real
     \<Rightarrow> cairo_t \<Rightarrow> real \<Rightarrow> real \<Rightarrow> real \<Rightarrow> scaling option" where
  "pdf_scaling_v_loop chars width height threshold cr font_size scale_x scale_y =
     (let cr1 = cairo_set_font_size cr font_size;
          text_width = fst (pdf_get_v_text_width_and_height cr1 chars);
          text_height = snd (pdf_get_v_text_width_and_height cr1 chars)
      in if font_size \<ge> 10000 \<or> text_width = 0 \<or> text_height = 0 then
           Some (False, cr1, font_size, scale_x, scale_y)
         else if text_width * scale_x < width * 0.95 \<and> text_height * scale_y < height * 0.95 then
           pdf_scaling_v_loop chars width height threshold cr1 (font_size * 1.05) scale_x scale_y
         else if threshold < 1.1 then
           Some (True, cr1, font_size, scale_x, scale_y)
         else if text_width * scale_x < width * 0.95 then
           pdf_scaling_v_loop chars width height threshold cr1 font_size (scale_x * 1.05) scale_y
         else if text_height * scale_y < height * 0.95 then
           pdf_scaling_v_loop chars width height threshold cr1 font_size scale_x (scale_y * 1.05)
         else
           Some (True, cr1, font_size, scale_x, scale_y))"

text \<open>The \<open>if\<close> / \<open>else if\<close> that follows the loop of \<open>pdf_scaling_v_text\<close>.\<close>

definition pdf_scaling_v_aspect ::
  "real \<Rightarrow> real \<Rightarrow> real \<Rightarrow> real \<Rightarrow> real \<Rightarrow> real \<Rightarrow> real \<times> real" where
  "pdf_scaling_v_aspect threshold text_width text_height len scale_x scale_y =
     (if (text_width * scale_x) / (text_height * scale_y / len) > threshold then
        (threshold * (text_height * scale_y / len) / text_width, scale_y)
      else if (text_height * scale_y / len) / (text_width * scale_x) > threshold then
        (scale_x, threshold * (text_width * scale_x) * len / text_height)
      else (scale_x, scale_y))"

definition pdf_scaling_v_text ::
  "cairo_t \<Rightarrow> byte list \<Rightarrow> real \<Rightarrow> real \<Rightarrow> real \<Rightarrow> scaling option" where
  "pdf_scaling_v_text cr utf8_text width height threshold =
     (if c_str utf8_text = [] then Some (False, cr, 10, 1, 1)
      else
        let chars = u8_split_chars [] utf8_text in
        case pdf_scaling_v_loop chars width height threshold cr 10 1 1 of
          None \<Rightarrow> None
        | Some (False, cr1, font_size, scale_x, scale_y) \<Rightarrow>
            Some (False, cr1, font_size, scale_x, scale_y)
        | Some (True, cr1, font_size, scale_x, scale_y) \<Rightarrow>
            let len = real (length chars);
                cr2 = cairo_set_font_size cr1 font_size;
                text_width = fst (pdf_get_v_text_width_and_height cr2 chars);
                text_height = snd (pdf_get_v_text_width_and_height cr2 chars);
                scales = pdf_scaling_v_aspect threshold text_width text_height len scale_x scale_y
            in Some (True, cr2, font_size, fst scales, snd scales))"

text \<open>
  Two predicates for the proofs about the horizontal loop. \<open>h_below\<close> is the test under
  which the loop enlarges the font: the text, measured at \<open>font_size\<close>, fills less than
  nine tenths of the box in both directions. \<open>h_exit\<close> is what holds of a result of the
  loop: when it is a success, the font size is the first one in the geometric sequence
  from the starting size at which \<open>h_below\<close> fails, and positive scale factors stay positive.
\<close>

definition h_below :: "cairo_t \<Rightarrow> byte list list \<Rightarrow> real \<Rightarrow> real \<Rightarrow> real \<Rightarrow> real \<Rightarrow> real \<Rightarrow> bool" where
  "h_below cr chars width height font_size scale_x scale_y =
     (fst (pdf_get_h_text_width_and_height (cairo_set_font_size cr font_size) chars) * scale_x
        < width * 0.9
      \<and> snd (pdf_get_h_text_width_and_height (cairo_set_font_size cr font_size) chars) * scale_y
        < height * 0.9)"

definition h_exit :: "cairo_t \<Rightarrow> byte list list \<Rightarrow> real \<Rightarrow> real \<Rightarrow> text_extents_t \<Rightarrow> real \<Rightarrow> real \<Rightarrow> real \<Rightarrow> scaling \<Rightarrow> bool" where
  "h_exit cr chars width height extents font_size scale_x scale_y r =
     (case r of (b, cr', f', sx', sy') \<Rightarrow>
        b \<longrightarrow> (\<exists>n. f' = font_size * 1.1 ^ n
               \<and> \<not> h_below cr chars width height f' scale_x scale_y
               \<and> (\<forall>j<n. h_below cr chars width height (font_size * 1.1 ^ j) scale_x scale_y))
             \<and> cr' = cairo_set_font_size cr f'
             \<and> (0 < scale_x \<longrightarrow> 0 < sx') \<and> (0 < scale_y \<longrightarrow> 0 < sy')
             \<and> f' < 10000 \<and> te_width extents \<noteq> 0 \<and> te_height extents \<noteq> 0)"

section \<open>The horizontal fit solver in binary64 arithmetic\<close>

text \<open>
  A \<open>double\<close> of the program is an IEEE 754 binary64 number: a finite number, an
  infinity or a NaN. Every operation gives the exact result rounded to the nearest
  number of 53 significant bits, to the even one of two nearest (\<open>round_b64\<close>): the unit
  in the last place of a result \<open>x\<close> with \<open>2\<^sup>e \<le> \<bar>x\<bar> < 2\<^sup>e\<^sup>+\<^sup>1\<close> is \<open>2\<^sup>e\<^sup>-\<^sup>5\<^sup>2\<close>, and not below
  \<open>2\<^sup>-\<^sup>1\<^sup>0\<^sup>7\<^sup>4\<close> (the subnormal numbers); a rounded result of magnitude \<open>2\<^sup>1\<^sup>0\<^sup>2\<^sup>4\<close> or
  more is an infinity. The real numbers that come in from outside, the text metrics,
  are taken to be binary64 numbers. A zero carries no sign here: every zero is taken as
  \<open>+0\<close>, which is what the sums and products of the non-negative numbers of a fit are.
\<close>

datatype double = Finite real | PlusInf | MinusInf | NaN

definition round_to_even :: "real \<Rightarrow> int" where
  "round_to_even x =
     (let f = \<lfloor>x\<rfloor>
      in if x - of_int f < 1 / 2 then f
         else if 1 / 2 < x - of_int f then f + 1
         else if even f then f else f + 1)"

text \<open>
  \<open>two_power e\<close> is \<open>2\<^sup>e\<close> for an integer \<open>e\<close>. \<open>b64_binade\<close> gives the exponent \<open>e\<close> of a
  positive number \<open>x\<close>, that with \<open>2\<^sup>e \<le> x < 2\<^sup>e\<^sup>+\<^sup>1\<close>, by halving or doubling \<open>x\<close> until
  it lies between 1 and 2; it stops after \<open>fuel\<close> steps, and 1100 steps are enough for
  every number that matters: a larger number rounds to an infinity in any case, and a
  smaller one has the unit \<open>2\<^sup>-\<^sup>1\<^sup>0\<^sup>7\<^sup>4\<close> in any case.
\<close>

definition two_power :: "int \<Rightarrow> real" where
  "two_power e = (if 0 \<le> e then 2 ^ nat e else 1 / 2 ^ nat (- e))"

fun b64_binade :: "nat \<Rightarrow> real \<Rightarrow> int" where
  "b64_binade 0 x = 0"
| "b64_binade (Suc fuel) x =
     (if 2 \<le> x then b64_binade fuel (x / 2) + 1
      else if x < 1 then b64_binade fuel (x * 2) - 1
      else 0)"

definition b64_ulp_exponent :: "real \<Rightarrow> int" where
  "b64_ulp_exponent x = max (b64_binade 1100 \<bar>x\<bar> - 52) (- 1074)"

definition round_b64 :: "real \<Rightarrow> double" where
  "round_b64 x =
     (if x = 0 then Finite 0
      else let ulp = two_power (b64_ulp_exponent x);
               y = of_int (round_to_even (x / ulp)) * ulp
           in if 2 ^ 1024 \<le> \<bar>y\<bar> then (if 0 < x then PlusInf else MinusInf) else Finite y)"

text \<open>
  The operations \<open>*\<close>, \<open>/\<close>, \<open>+\<close> and the comparisons \<open><\<close> and \<open>\<le>\<close> of binary64. A
  quotient by zero is an infinity of the sign of the dividend, and \<open>0 / 0\<close> a NaN; a
  comparison with a NaN is false.
\<close>

fun d_mul :: "double \<Rightarrow> double \<Rightarrow> double" where
  "d_mul (Finite x) (Finite y) = round_b64 (x * y)"
| "d_mul NaN b = NaN"
| "d_mul a NaN = NaN"
| "d_mul (Finite x) b = (if x = 0 then NaN else if (0 < x) = (b = PlusInf) then PlusInf else MinusInf)"
| "d_mul a (Finite y) = (if y = 0 then NaN else if (0 < y) = (a = PlusInf) then PlusInf else MinusInf)"
| "d_mul a b = (if a = b then PlusInf else MinusInf)"

fun d_div :: "double \<Rightarrow> double \<Rightarrow> double" where
  "d_div (Finite x) (Finite y) =
     (if y = 0 then (if x = 0 then NaN else if 0 < x then PlusInf else MinusInf)
      else round_b64 (x / y))"
| "d_div NaN b = NaN"
| "d_div a NaN = NaN"
| "d_div (Finite x) b = Finite 0"
| "d_div a (Finite y) = (if (0 \<le> y) = (a = PlusInf) then PlusInf else MinusInf)"
| "d_div a b = NaN"

fun d_add :: "double \<Rightarrow> double \<Rightarrow> double" where
  "d_add (Finite x) (Finite y) = round_b64 (x + y)"
| "d_add NaN b = NaN"
| "d_add a NaN = NaN"
| "d_add (Finite x) b = b"
| "d_add a (Finite y) = a"
| "d_add a b = (if a = b then a else NaN)"

fun d_less :: "double \<Rightarrow> double \<Rightarrow> bool" where
  "d_less (Finite x) (Finite y) = (x < y)"
| "d_less NaN b = False"
| "d_less a NaN = False"
| "d_less MinusInf b = (b \<noteq> MinusInf)"
| "d_less a PlusInf = (a \<noteq> PlusInf)"
| "d_less a b = False"

fun d_le :: "double \<Rightarrow> double \<Rightarrow> bool" where
  "d_le (Finite x) (Finite y) = (x \<le> y)"
| "d_le NaN b = False"
| "d_le a NaN = False"
| "d_le MinusInf b = True"
| "d_le a PlusInf = True"
| "d_le a b = False"

text \<open>
  \<open>pdf_get_h_text_width_and_height\<close>, \<open>pdf_scaling_h_text\<close> and its loop once more, every
  operation being that of binary64. The literals \<open>0.9\<close> and \<open>1.1\<close> are the binary64 numbers
  nearest to \<open>9 / 10\<close> and \<open>11 / 10\<close>. The loop hands a font size below 10000 to
  \<open>cairo_set_font_size\<close>; for a font size that is not finite, which the loop never
  reaches, the context is left as it is. The character count \<open>len\<close> is a \<open>size_t\<close> and is
  converted to a \<open>double\<close>, exactly as long as it is below \<open>2\<^sup>5\<^sup>3\<close>.
\<close>

fun pdf_get_h_loop_b64 ::
  "cairo_t \<Rightarrow> font_extents_t \<Rightarrow> double \<Rightarrow> double \<Rightarrow> byte list list \<Rightarrow> double \<times> double" where
  "pdf_get_h_loop_b64 cr font_extents text_width text_height [] = (text_width, text_height)"
| "pdf_get_h_loop_b64 cr font_extents text_width text_height (text_char # chars) =
     (let extents = cairo_text_extents cr text_char;
          text_height1 = (if d_less text_height (Finite (te_height extents))
                          then Finite (te_height extents) else text_height);
          text_height2 = (if d_less text_height1 (Finite (fe_height font_extents))
                          then Finite (fe_height font_extents) else text_height1)
      in pdf_get_h_loop_b64 cr font_extents
           (d_add text_width (Finite (te_x_advance extents))) text_height2 chars)"

definition pdf_get_h_text_width_and_height_b64 :: "cairo_t \<Rightarrow> byte list list \<Rightarrow> double \<times> double" where
  "pdf_get_h_text_width_and_height_b64 cr chars =
     pdf_get_h_loop_b64 cr (cairo_font_extents cr) (Finite 0) (Finite 0) chars"

definition cairo_set_font_size_b64 :: "cairo_t \<Rightarrow> double \<Rightarrow> cairo_t" where
  "cairo_set_font_size_b64 cr font_size =
     (case font_size of Finite fsize \<Rightarrow> cairo_set_font_size cr fsize | _ \<Rightarrow> cr)"

type_synonym scaling_b64 = "bool \<times> cairo_t \<times> double \<times> double \<times> double"

partial_function (option) pdf_scaling_h_loop_b64 ::
  "byte list list \<Rightarrow> double \<Rightarrow> double \<Rightarrow> double \<Rightarrow> text_extents_t
     \<Rightarrow> cairo_t \<Rightarrow> double \<Rightarrow> double \<Rightarrow> double \<Rightarrow> scaling_b64 option" where
  "pdf_scaling_h_loop_b64 chars width height threshold extents cr font_size scale_x scale_y =
     (let cr1 = cairo_set_font_size_b64 cr font_size;
          text_width = fst (pdf_get_h_text_width_and_height_b64 cr1 chars);
          text_height = snd (pdf_get_h_text_width_and_height_b64 cr1 chars)
      in if d_le (Finite 10000) font_size \<or> te_width extents = 0 \<or> te_height extents = 0 then
           Some (False, cr1, font_size, scale_x, scale_y)
         else if d_less (d_mul text_width scale_x) (d_mul width (round_b64 (9 / 10)))
                 \<and> d_less (d_mul text_height scale_y) (d_mul height (round_b64 (9 / 10))) then
           pdf_scaling_h_loop_b64 chars width height threshold extents cr1
             (d_mul font_size (round_b64 (11 / 10))) scale_x scale_y
         else if d_less threshold (round_b64 (11 / 10)) then
           Some (True, cr1, font_size, scale_x, scale_y)
         else if d_less (d_mul text_width scale_x) (d_mul width (round_b64 (9 / 10))) then
           pdf_scaling_h_loop_b64 chars width height threshold extents cr1 font_size
             (d_mul scale_x (round_b64 (11 / 10))) scale_y
         else if d_less (d_mul text_height scale_y) (d_mul height (round_b64 (9 / 10))) then
           pdf_scaling_h_loop_b64 chars width height threshold extents cr1 font_size scale_x
             (d_mul scale_y (round_b64 (11 / 10)))
         else
           Some (True, cr1, font_size, scale_x, scale_y))"

text \<open>
  The two quotients that the aspect correction compares with the threshold, and the two
  independent \<open>if\<close> statements.
\<close>

definition h_ratio_b64 :: "double \<Rightarrow> double \<Rightarrow> double \<Rightarrow> double \<Rightarrow> double \<Rightarrow> double" where
  "h_ratio_b64 text_width text_height len scale_x scale_y =
     d_div (d_div (d_mul text_width scale_x) len) (d_mul text_height scale_y)"

definition h_inverse_b64 :: "double \<Rightarrow> double \<Rightarrow> double \<Rightarrow> double \<Rightarrow> double \<Rightarrow> double" where
  "h_inverse_b64 text_width text_height len scale_x scale_y =
     d_div (d_mul text_height scale_y) (d_div (d_mul text_width scale_x) len)"

definition pdf_scaling_h_aspect_b64 ::
  "double \<Rightarrow> double \<Rightarrow> double \<Rightarrow> double \<Rightarrow> double \<Rightarrow> double \<Rightarrow> double \<times> double" where
  "pdf_scaling_h_aspect_b64 threshold text_width text_height len scale_x scale_y =
     (let scale_x1 =
            (if d_less threshold (h_ratio_b64 text_width text_height len scale_x scale_y)
             then d_div (d_mul (d_mul threshold (d_mul text_height scale_y)) len) text_width
             else scale_x);
          scale_y1 =
            (if d_less threshold (h_inverse_b64 text_width text_height len scale_x1 scale_y)
             then d_div (d_mul threshold (d_div (d_mul text_width scale_x1) len)) text_height
             else scale_y)
      in (scale_x1, scale_y1))"

definition pdf_scaling_h_text_b64 ::
  "cairo_t \<Rightarrow> byte list \<Rightarrow> double \<Rightarrow> double \<Rightarrow> double \<Rightarrow> text_extents_t \<Rightarrow> scaling_b64 option" where
  "pdf_scaling_h_text_b64 cr utf8_text width height threshold extents =
     (if c_str utf8_text = [] then Some (False, cr, Finite 10, Finite 1, Finite 1)
      else
        let chars = u8_split_chars [] utf8_text in
        case pdf_scaling_h_loop_b64 chars width height threshold extents cr
               (Finite 10) (Finite 1) (Finite 1) of
          None \<Rightarrow> None
        | Some (False, cr1, font_size, scale_x, scale_y) \<Rightarrow>
            Some (False, cr1, font_size, scale_x, scale_y)
        | Some (True, cr1, font_size, scale_x, scale_y) \<Rightarrow>
            let len = Finite (real (u8_len utf8_text));
                cr2 = cairo_set_font_size_b64 cr1 font_size;
                text_width = fst (pdf_get_h_text_width_and_height_b64 cr2 chars);
                text_height = snd (pdf_get_h_text_width_and_height_b64 cr2 chars);
                scales = pdf_scaling_h_aspect_b64 threshold text_width text_height len scale_x scale_y
            in Some (True, cr2, font_size, fst scales, snd scales))"

section \<open>The start of the vertical layout\<close>

text \<open>
  The loop of \<open>pdf_draw_v_text\<close> that shrinks both scale factors until the blank between
  characters is at least a fifth of the font size. It has no other exit.
\<close>

partial_function (option) pdf_draw_v_gap_loop ::
  "cairo_t \<Rightarrow> byte list list \<Rightarrow> real \<Rightarrow> real \<Rightarrow> real \<Rightarrow> real \<Rightarrow> real
     \<Rightarrow> (real \<times> real \<times> real) option" where
  "pdf_draw_v_gap_loop cr chars height font_size scale_x scale_y each_blank_height =
     (if each_blank_height < font_size / 5 then
        let scale_x1 = scale_x * 0.95;
            scale_y1 = scale_y * 0.95;
            text_height = snd (pdf_get_v_text_width_and_height cr chars) * scale_y1
        in pdf_draw_v_gap_loop cr chars height font_size scale_x1 scale_y1
             ((height - text_height) / (real (length chars) + 1))
      else Some (scale_x, scale_y, each_blank_height))"

text \<open>
  \<open>pdf_draw_v_text\<close> up to its drawing loop. \<open>V_false\<close> is the return of \<open>false\<close> before
  anything is drawn; \<open>V_draw scale_x scale_y each_blank_height\<close> is the state in which
  the drawing loop starts. The full-width mapping \<open>u8_locale_map_text\<close> is done by the
  operating system and is a parameter.
\<close>

datatype v_layout = V_false | V_draw real real real

definition pdf_draw_v_text ::
  "(byte list \<Rightarrow> byte list) \<Rightarrow> cairo_t \<Rightarrow> byte list \<Rightarrow> real \<Rightarrow> real \<Rightarrow> real
     \<Rightarrow> v_layout option" where
  "pdf_draw_v_text u8_locale_map_text cr utf8_text width height threshold =
     (if c_str utf8_text = [] then Some V_false
      else
        let mapped_text =
              (if pdf_is_font_japanese cr \<or> pdf_is_font_chinese cr \<or> pdf_is_font_korean cr
               then u8_locale_map_text utf8_text else utf8_text)
        in case pdf_scaling_v_text cr mapped_text width height threshold of
             None \<Rightarrow> None
           | Some (False, cr1, font_size, scale_x, scale_y) \<Rightarrow> Some V_false
           | Some (True, cr1, font_size, scale_x, scale_y) \<Rightarrow>
               let chars = u8_split_chars [] mapped_text;
                   text_height = snd (pdf_get_v_text_width_and_height cr1 chars) * scale_y;
                   each_blank_height = (height - text_height) / (real (length chars) + 1)
               in case pdf_draw_v_gap_loop cr1 chars height font_size scale_x scale_y
                         each_blank_height of
                    None \<Rightarrow> None
                  | Some (scale_x1, scale_y1, each_blank_height1) \<Rightarrow>
                      Some (V_draw scale_x1 scale_y1 each_blank_height1))"

section \<open>Pages by letter count\<close>

text \<open>
  \<open>std::string::find (sub, pos)\<close>: the least position from \<open>pos\<close> on at which \<open>sub\<close> occurs,
  or \<open>npos\<close> (\<open>None\<close>). \<open>std::string::replace (pos, n, sub)\<close> puts \<open>sub\<close> in the place of
  the \<open>n\<close> bytes at \<open>pos\<close>.
\<close>

definition string_find :: "byte list \<Rightarrow> byte list \<Rightarrow> nat \<Rightarrow> nat option" where
  "string_find str sub pos =
     (case filter (\<lambda>k. take (length sub) (drop k str) = sub) [pos ..< Suc (length str)] of
        [] \<Rightarrow> None
      | k # ks \<Rightarrow> Some k)"

definition string_replace :: "byte list \<Rightarrow> nat \<Rightarrow> nat \<Rightarrow> byte list \<Rightarrow> byte list" where
  "string_replace str pos n sub = take pos str @ sub @ drop (pos + n) str"

text \<open>
  The loop of \<open>mstr_replace_all\<close>, with the flag \<open>ret\<close>, the string and the index \<open>i\<close>.
  With an empty \<open>from\<close> every search succeeds and the loop never ends, so it is a partial
  function; it returns the flag and the new string.
\<close>

partial_function (option) mstr_replace_all_loop ::
  "byte list \<Rightarrow> byte list \<Rightarrow> bool \<Rightarrow> byte list \<Rightarrow> nat \<Rightarrow> (bool \<times> byte list) option" where
  "mstr_replace_all_loop from to ret str i =
     (case string_find str from i of
        None \<Rightarrow> Some (ret, str)
      | Some k \<Rightarrow>
          mstr_replace_all_loop from to True (string_replace str k (length from) to)
            (k + length to))"

definition mstr_replace_all :: "byte list \<Rightarrow> byte list \<Rightarrow> byte list \<Rightarrow> (bool \<times> byte list) option" where
  "mstr_replace_all str from to = mstr_replace_all_loop from to False str 0"

text \<open>
  The letters-per-page branch of \<open>pdfplaca_do_it\<close> first deletes the space, the tab, the
  carriage return, the line feed and the ideographic space (three bytes in UTF-8).
\<close>

definition delete_spaces :: "byte list \<Rightarrow> byte list option" where
  "delete_spaces utf8_text =
     Option.bind (mstr_replace_all utf8_text [0x20] []) (\<lambda>(r1, text1).
     Option.bind (mstr_replace_all text1 [0x09] []) (\<lambda>(r2, text2).
     Option.bind (mstr_replace_all text2 [0x0D] []) (\<lambda>(r3, text3).
     Option.bind (mstr_replace_all text3 [0x0A] []) (\<lambda>(r4, text4).
     Option.bind (mstr_replace_all text4 [0xE3, 0x80, 0x80] []) (\<lambda>(r5, text5).
     Some text5)))))"

text \<open>
  The inner loop collects the string of one page: \<open>iChar\<close> runs up to \<open>limit\<close>, which is
  \<open>(iPage + 1) * g_letters_per_page\<close>, and a character is appended when \<open>iChar\<close> is within
  the vector. The counters are \<open>size_t\<close> in the program and natural numbers here: they
  stay below the number of characters plus \<open>g_letters_per_page\<close>, an \<open>int\<close>, and cannot
  wrap.
\<close>

function page_str_loop :: "byte list list \<Rightarrow> nat \<Rightarrow> nat \<Rightarrow> byte list \<Rightarrow> nat \<times> byte list" where
  "page_str_loop chars limit iChar str =
     (if iChar < limit then
        page_str_loop chars limit (iChar + 1)
          (if iChar < length chars then str @ chars ! iChar else str)
      else (iChar, str))"
  by pat_completeness auto
termination
  by (relation "measure (\<lambda>(chars, limit, iChar, str). limit - iChar)") auto

declare page_str_loop.simps [simp del]

text \<open>
  The outer loop runs over the pages and keeps \<open>iChar\<close>. Each round collects the string
  \<open>str\<close> of the page, calls \<open>pdfplaca_draw_page\<close> on \<open>str.c_str ()\<close> and then
  \<open>cairo_show_page\<close>, which ends the page. The call of \<open>pdfplaca_draw_page\<close> is the
  parameter of that name: it gives \<open>None\<close> on a string for which the call does not
  return (the drawing of a column runs the gap loop of \<open>pdf_draw_v_text\<close>, which may
  never end) and the Boolean result otherwise, which the caller ignores. \<open>pages\<close> collects
  the strings of the pages that \<open>cairo_show_page\<close> has ended, in order; the loop gives
  \<open>None\<close> when a page is never ended.
\<close>

function draw_pages_loop ::
  "(byte list \<Rightarrow> bool option) \<Rightarrow> byte list list \<Rightarrow> nat \<Rightarrow> nat \<Rightarrow> nat \<Rightarrow> nat \<Rightarrow> byte list list
     \<Rightarrow> byte list list option" where
  "draw_pages_loop pdfplaca_draw_page chars letters_per_page num_page iPage iChar pages =
     (if iPage < num_page then
        (case pdfplaca_draw_page
                (c_str (snd (page_str_loop chars ((iPage + 1) * letters_per_page) iChar []))) of
           None \<Rightarrow> None
         | Some drawn \<Rightarrow>
             draw_pages_loop pdfplaca_draw_page chars letters_per_page num_page (iPage + 1)
               (fst (page_str_loop chars ((iPage + 1) * letters_per_page) iChar []))
               (pages @ [snd (page_str_loop chars ((iPage + 1) * letters_per_page) iChar [])]))
      else Some pages)"
  by pat_completeness auto
termination
  by (relation "measure (\<lambda>(pdfplaca_draw_page, chars, letters_per_page, num_page, iPage, iChar, pages).
        num_page - iPage)") auto

declare draw_pages_loop.simps [simp del]

text \<open>
  The pages of \<open>pdfplaca_do_it\<close>, from the text as it is after unescaping: the whole text
  drawn once when \<open>g_letters_per_page\<close> is \<open>-1\<close> (no page is ended there), the chunks
  of the text without spaces when it is positive, and nothing otherwise.
\<close>

definition pdfplaca_do_it_pages ::
  "(byte list \<Rightarrow> bool option) \<Rightarrow> byte list \<Rightarrow> int \<Rightarrow> byte list list option" where
  "pdfplaca_do_it_pages pdfplaca_draw_page utf8_text g_letters_per_page =
     (if g_letters_per_page = - 1 then
        (case pdfplaca_draw_page (c_str utf8_text) of
           None \<Rightarrow> None
         | Some drawn \<Rightarrow> Some [utf8_text])
      else if g_letters_per_page > 0 then
        Option.bind (delete_spaces utf8_text) (\<lambda>stripped.
          let chars = u8_split_chars [] stripped;
              letters_per_page = nat g_letters_per_page;
              num_page = (length chars + letters_per_page - 1) div letters_per_page
          in draw_pages_loop pdfplaca_draw_page chars letters_per_page num_page 0 0 [])
      else Some [])"



section \<open>A font for the examples\<close>

text \<open>
  The concrete inputs of the examples below use this drawing context. Its font has four
  glyphs, all proportional to the font size: a space with an advance and no ink, a full
  stop one fifth of the size wide and high, a letter \<open>a\<close> half the size wide and high, and
  a letter \<open>l\<close> one fifth of the size wide and seven tenths high. Every other string
  has zero extents, the CJK probe glyphs included. The line height is six fifths of the
  size.
\<close>

definition glyph :: "real \<Rightarrow> real \<Rightarrow> real \<Rightarrow> text_extents_t" where
  "glyph w h adv = \<lparr>te_x_bearing = 0, te_y_bearing = - h, te_width = w, te_height = h,
                    te_x_advance = adv, te_y_advance = 0\<rparr>"

definition example_font :: cairo_t where
  "example_font =
     \<lparr>cr_font_size = 12,
      cr_text_extents = (\<lambda>fsize utf8.
         if utf8 = [0x20] then glyph 0 0 (fsize / 2)
         else if utf8 = [0x2E] then glyph (fsize / 5) (fsize / 5) (fsize / 4)
         else if utf8 = [0x61] then glyph (fsize / 2) (fsize / 2) (fsize / 2)
         else if utf8 = [0x6C] then glyph (fsize / 5) (fsize * 7 / 10) (fsize / 5)
         else glyph 0 0 0),
      cr_font_extents = (\<lambda>fsize.
         \<lparr>fe_ascent = fsize, fe_descent = fsize / 5, fe_height = fsize * 6 / 5,
          fe_max_x_advance = fsize, fe_max_y_advance = 0\<rparr>)\<rparr>"

text \<open>
  A font of wide glyphs: every glyph is twice the font size wide, one and a half times
  the font size high, and advances by \<open>11 / 5\<close> of the font size.
\<close>

definition example_wide_font :: cairo_t where
  "example_wide_font =
     \<lparr>cr_font_size = 12,
      cr_text_extents = (\<lambda>fsize utf8. glyph (fsize * 2) (fsize * 3 / 2) (fsize * 11 / 5)),
      cr_font_extents = (\<lambda>fsize.
         \<lparr>fe_ascent = fsize, fe_descent = fsize / 5, fe_height = fsize * 6 / 5,
          fe_max_x_advance = fsize * 11 / 5, fe_max_y_advance = 0\<rparr>)\<rparr>"

text \<open>Two possible contents of the unassigned variable \<open>extents\<close> of \<open>pdf_scaling_h_text\<close>.\<close>

definition stack_ones :: text_extents_t where
  "stack_ones = glyph 1 1 1"

definition stack_zeros :: text_extents_t where
  "stack_zeros = glyph 0 0 0"

section \<open>Properties of the character split\<close>

lemma u8_split_loop_concat:
  "concat (fst (u8_split_loop chars s str)) @ snd (u8_split_loop chars s str)
     = concat chars @ s @ c_str str"
  by (induction str arbitrary: chars s) (simp_all add: c_str_def)

lemma u8_split_chars_concat:
  "concat (u8_split_chars chars str) = concat chars @ c_str str"
proof -
  obtain cs s where r: "u8_split_loop chars [] str = (cs, s)"
    by (cases "u8_split_loop chars [] str")
  from u8_split_loop_concat [of chars "[]" str] r
  have "concat cs @ s = concat chars @ c_str str" by simp
  with r show ?thesis by (cases "s = []") (simp_all add: u8_split_chars_def)
qed

text \<open>
  Claim C8. The character splitter cuts the text at lead bytes: the UTF-8 text of
  the seven characters a, b, three hiragana and two kanji gives exactly 7 characters,
  the single four-byte code point U+20BB7 gives exactly 1, and two emoji U+1F603
  give exactly 2; \<open>u8_len\<close> counts the same numbers, as the program's static
  assertions say.
\<close>

theorem u8_split_chars_counts:
  "length (u8_split_chars []
     [0x61, 0x62, 0xE3, 0x81, 0x82, 0xE3, 0x81, 0x84, 0xE3, 0x81, 0x86,
      0xE6, 0xBC, 0xA2, 0xE5, 0xAD, 0x97]) = 7
   \<and> length (u8_split_chars [] [0xF0, 0xA0, 0xAE, 0xB7]) = 1
   \<and> length (u8_split_chars [] [0xF0, 0x9F, 0x98, 0x83, 0xF0, 0x9F, 0x98, 0x83]) = 2
   \<and> u8_len [0x61, 0x62, 0xE3, 0x81, 0x82, 0xE3, 0x81, 0x84, 0xE3, 0x81, 0x86,
      0xE6, 0xBC, 0xA2, 0xE5, 0xAD, 0x97] = 7
   \<and> u8_len [0xF0, 0xA0, 0xAE, 0xB7] = 1
   \<and> u8_len [0xF0, 0x9F, 0x98, 0x83, 0xF0, 0x9F, 0x98, 0x83] = 2"
  by (simp add: u8_split_chars_def u8_len_def u8_is_lead_def)

text \<open>
  Claim C10. For every byte string, malformed UTF-8 included, the characters the
  splitter produces, concatenated in order, are the bytes of the C string it was given:
  the bytes up to the terminator, which is the whole list when no byte is zero. Nothing
  is dropped, duplicated or reordered.
\<close>

theorem u8_split_chars_preserves_bytes:
  "concat (u8_split_chars [] str) = c_str str
   \<and> (0 \<notin> set str \<longrightarrow> concat (u8_split_chars [] str) = str)"
proof -
  have "0 \<notin> set str \<Longrightarrow> c_str str = str"
    by (induction str) (auto simp add: c_str_def)
  then show ?thesis
    using u8_split_chars_concat [of "[]" str] by simp
qed

theorem u8_split_chars_preserves_bytes_witness:
  "0 \<notin> set [0x80, 0x61, 0xE3, 0x81 :: byte]
   \<and> u8_split_chars [] [0x80, 0x61, 0xE3, 0x81] = [[0x80], [0x61], [0xE3, 0x81]]
   \<and> concat (u8_split_chars [] [0x80, 0x61, 0xE3, 0x81]) = [0x80, 0x61, 0xE3, 0x81]"
  using u8_split_chars_preserves_bytes [of "[0x80, 0x61, 0xE3, 0x81]"]
  by (simp add: u8_split_chars_def u8_is_lead_def)

section \<open>Properties of escaping\<close>

lemma mstr_escape_loop_append:
  "mstr_escape_loop ret s = ret @ concat (map escape_char s)"
  by (induction s arbitrary: ret) simp_all

lemma mstr_unescape_loop_escape_char:
  "mstr_unescape_loop False ret (escape_char ch @ rest) = mstr_unescape_loop False (ret @ [ch]) rest"
  by (simp add: escape_char_def unescape_char_def)

lemma mstr_unescape_loop_escaped:
  "mstr_unescape_loop False ret (concat (map escape_char s) @ rest)
     = mstr_unescape_loop False (ret @ s) rest"
proof (induction s arbitrary: ret)
  case Nil
  show ?case by simp
next
  case (Cons ch s)
  have "mstr_unescape_loop False ret (concat (map escape_char (ch # s)) @ rest)
      = mstr_unescape_loop False ret (escape_char ch @ (concat (map escape_char s) @ rest))"
    by simp
  also have "\<dots> = mstr_unescape_loop False (ret @ [ch]) (concat (map escape_char s) @ rest)"
    by (rule mstr_unescape_loop_escape_char)
  also have "\<dots> = mstr_unescape_loop False ((ret @ [ch]) @ s) rest"
    by (rule Cons.IH)
  finally show ?case by simp
qed

lemma mstr_unescape_escape: "mstr_unescape (mstr_escape s) = s"
  using mstr_unescape_loop_escaped [of "[]" s "[]"]
  by (simp add: mstr_unescape_def mstr_escape_def mstr_escape_loop_append)

text \<open>
  Claim C9. For every string \<open>s\<close> with no raw control character (no tab, newline,
  carriage return or form feed byte), unescaping the escaped string gives \<open>s\<close> back.
  (The hypothesis is the claim's; the round trip holds for every string.)
\<close>

theorem escape_round_trip:
  "0x09 \<notin> set s \<Longrightarrow> 0x0A \<notin> set s \<Longrightarrow> 0x0D \<notin> set s \<Longrightarrow> 0x0C \<notin> set s
   \<Longrightarrow> mstr_unescape (mstr_escape s) = s"
  by (rule mstr_unescape_escape)

theorem escape_round_trip_witness:
  "0x09 \<notin> set [0x61, 0x5C, 0x6E, 0x5C :: byte]
   \<and> 0x0A \<notin> set [0x61, 0x5C, 0x6E, 0x5C :: byte]
   \<and> 0x0D \<notin> set [0x61, 0x5C, 0x6E, 0x5C :: byte]
   \<and> 0x0C \<notin> set [0x61, 0x5C, 0x6E, 0x5C :: byte]
   \<and> mstr_escape [0x61, 0x5C, 0x6E, 0x5C] = [0x61, 0x5C, 0x5C, 0x6E, 0x5C, 0x5C]
   \<and> mstr_unescape (mstr_escape [0x61, 0x5C, 0x6E, 0x5C]) = [0x61, 0x5C, 0x6E, 0x5C]"
  using escape_round_trip [of "[0x61, 0x5C, 0x6E, 0x5C]"]
  by (simp add: mstr_escape_def escape_char_def)

section \<open>Properties of the pages by letter count\<close>












lemma page_str_loop_eq:
  "page_str_loop chars limit iChar str
     = (max iChar limit, str @ concat (take (limit - iChar) (drop iChar chars)))"
proof (induction chars limit iChar str rule: page_str_loop.induct)
  case (1 chars limit iChar str)
  show ?case
  proof (cases "iChar < limit")
    case False
    then show ?thesis by (subst page_str_loop.simps) simp
  next
    case True
    then obtain m where m: "limit - iChar = Suc m" "limit - (iChar + 1) = m"
      by (cases "limit - iChar") auto
    show ?thesis
    proof (cases "iChar < length chars")
      case inside: True
      then have "drop iChar chars = chars ! iChar # drop (iChar + 1) chars"
        by (simp add: Cons_nth_drop_Suc)
      with True inside m "1.IH" [OF True] show ?thesis
        by (subst page_str_loop.simps) (simp add: max_def)
    next
      case outside: False
      with True m "1.IH" [OF True] show ?thesis
        by (subst page_str_loop.simps) (simp add: max_def)
    qed
  qed
qed


text \<open>When the drawing of the first page does not return, no page is ended.\<close>

lemma pdfplaca_do_it_pages_first_page:
  assumes "0 < g_letters_per_page"
    and "delete_spaces utf8_text = Some stripped"
    and "u8_split_chars [] stripped \<noteq> []"
    and "pdfplaca_draw_page
           (c_str (concat (take (nat g_letters_per_page) (u8_split_chars [] stripped)))) = None"
  shows "pdfplaca_do_it_pages pdfplaca_draw_page utf8_text g_letters_per_page = None"
proof -
  define chars where "chars = u8_split_chars [] stripped"
  define k where "k = nat g_letters_per_page"
  from assms(1) have k: "0 < k" by (simp add: k_def)
  from assms(3) have "0 < length chars" by (simp add: chars_def)
  with k have "length chars + k - 1 \<ge> k" by linarith
  then have "1 \<le> (length chars + k - 1) div k" using k by (simp add: div_greater_zero_iff Suc_le_eq)
  then have "0 < (length chars + k - 1) div k" by simp
  with assms(4) have "draw_pages_loop pdfplaca_draw_page chars k ((length chars + k - 1) div k) 0 0 [] = None"
    by (subst draw_pages_loop.simps) (simp add: page_str_loop_eq chars_def k_def)
  with assms(1,2) show ?thesis
    by (simp add: pdfplaca_do_it_pages_def Let_def chars_def k_def)
qed














section \<open>Properties of the horizontal fit solver\<close>

lemma cairo_set_font_size_twice [simp]:
  "cairo_set_font_size (cairo_set_font_size cr a) b = cairo_set_font_size cr b"
  by (simp add: cairo_set_font_size_def)

lemma h_below_set [simp]:
  "h_below (cairo_set_font_size cr a) chars width height font_size scale_x scale_y
     = h_below cr chars width height font_size scale_x scale_y"
  by (simp add: h_below_def)

lemma h_loop_exit:
  "pdf_scaling_h_loop chars width height threshold extents cr font_size scale_x scale_y = Some r
   \<Longrightarrow> h_exit cr chars width height extents font_size scale_x scale_y r"
proof (induction rule: pdf_scaling_h_loop.raw_induct [rotated 1, consumes 1])
  case (1 loop chars width height threshold extents cr font_size scale_x scale_y r)
  let ?cr1 = "cairo_set_font_size cr font_size"
  let ?tw = "fst (pdf_get_h_text_width_and_height ?cr1 chars)"
  let ?th = "snd (pdf_get_h_text_width_and_height ?cr1 chars)"
  have below: "h_below cr chars width height font_size sx sy
                 = (?tw * sx < width * 0.9 \<and> ?th * sy < height * 0.9)" for sx sy
    by (simp add: h_below_def)
  note body = 1(2) [unfolded Let_def]
  consider (fail) "font_size \<ge> 10000 \<or> te_width extents = 0 \<or> te_height extents = 0"
    | (grow) "\<not> (font_size \<ge> 10000 \<or> te_width extents = 0 \<or> te_height extents = 0)"
        "h_below cr chars width height font_size scale_x scale_y"
    | (stop) "\<not> (font_size \<ge> 10000 \<or> te_width extents = 0 \<or> te_height extents = 0)"
        "\<not> h_below cr chars width height font_size scale_x scale_y"
        "threshold < 1.1 \<or> (\<not> ?tw * scale_x < width * 0.9 \<and> \<not> ?th * scale_y < height * 0.9)"
    | (wide) "\<not> (font_size \<ge> 10000 \<or> te_width extents = 0 \<or> te_height extents = 0)"
        "\<not> h_below cr chars width height font_size scale_x scale_y"
        "\<not> threshold < 1.1" "?tw * scale_x < width * 0.9"
    | (tall) "\<not> (font_size \<ge> 10000 \<or> te_width extents = 0 \<or> te_height extents = 0)"
        "\<not> h_below cr chars width height font_size scale_x scale_y"
        "\<not> threshold < 1.1" "\<not> ?tw * scale_x < width * 0.9" "?th * scale_y < height * 0.9"
    by blast
  then show ?case
  proof cases
    case fail
    with body have "r = (False, ?cr1, font_size, scale_x, scale_y)" by auto
    then show ?thesis by (simp add: h_exit_def)
  next
    case grow
    with body have "loop chars width height threshold extents ?cr1 (font_size * 1.1) scale_x scale_y = Some r"
      by (auto simp add: below)
    then have ih: "h_exit ?cr1 chars width height extents (font_size * 1.1) scale_x scale_y r"
      by (rule 1(1))
    obtain b cr' f' sx' sy' where r: "r = (b, cr', f', sx', sy')" by (cases r)
    show ?thesis
    proof (cases b)
      case False
      with r show ?thesis by (simp add: h_exit_def)
    next
      case True
      with ih r obtain n where n: "f' = font_size * 1.1 * 1.1 ^ n"
        "\<not> h_below cr chars width height f' scale_x scale_y"
        "\<forall>j<n. h_below cr chars width height (font_size * 1.1 * 1.1 ^ j) scale_x scale_y"
        and rest: "cr' = cairo_set_font_size cr f'" "0 < scale_x \<longrightarrow> 0 < sx'"
        "0 < scale_y \<longrightarrow> 0 < sy'" "f' < 10000" "te_width extents \<noteq> 0" "te_height extents \<noteq> 0"
        by (auto simp add: h_exit_def)
      have "\<forall>j<Suc n. h_below cr chars width height (font_size * 1.1 ^ j) scale_x scale_y"
      proof (intro allI impI)
        fix j assume "j < Suc n"
        show "h_below cr chars width height (font_size * 1.1 ^ j) scale_x scale_y"
        proof (cases j)
          case 0
          with grow(2) show ?thesis by simp
        next
          case (Suc k)
          with \<open>j < Suc n\<close> n(3) show ?thesis by (simp add: mult.assoc)
        qed
      qed
      moreover have "f' = font_size * 1.1 ^ Suc n" using n(1) by (simp add: mult.assoc)
      ultimately have "\<exists>m. f' = font_size * 1.1 ^ m
               \<and> \<not> h_below cr chars width height f' scale_x scale_y
               \<and> (\<forall>j<m. h_below cr chars width height (font_size * 1.1 ^ j) scale_x scale_y)"
        using n(2) by blast
      with r True rest show ?thesis by (simp add: h_exit_def)
    qed
  next
    case stop
    with body have "r = (True, ?cr1, font_size, scale_x, scale_y)"
      by (auto simp add: below split: if_splits)
    moreover have "\<exists>n. font_size = font_size * 1.1 ^ n
               \<and> \<not> h_below cr chars width height font_size scale_x scale_y
               \<and> (\<forall>j<n. h_below cr chars width height (font_size * 1.1 ^ j) scale_x scale_y)"
      using stop(2) by (intro exI [of _ 0]) simp
    ultimately show ?thesis using stop(1) by (simp add: h_exit_def)
  next
    case wide
    with body have "loop chars width height threshold extents ?cr1 font_size (scale_x * 1.1) scale_y = Some r"
      by (auto simp add: below)
    then have ih: "h_exit ?cr1 chars width height extents font_size (scale_x * 1.1) scale_y r"
      by (rule 1(1))
    from wide have high: "\<not> ?th * scale_y < height * 0.9" by (auto simp add: below)
    obtain b cr' f' sx' sy' where r: "r = (b, cr', f', sx', sy')" by (cases r)
    show ?thesis
    proof (cases b)
      case False
      with r show ?thesis by (simp add: h_exit_def)
    next
      case True
      with ih r obtain n where n: "f' = font_size * 1.1 ^ n"
        "\<forall>j<n. h_below cr chars width height (font_size * 1.1 ^ j) (scale_x * 1.1) scale_y"
        and rest: "cr' = cairo_set_font_size cr f'" "0 < scale_x * 1.1 \<longrightarrow> 0 < sx'"
        "0 < scale_y \<longrightarrow> 0 < sy'" "f' < 10000" "te_width extents \<noteq> 0" "te_height extents \<noteq> 0"
        by (auto simp add: h_exit_def)
      have "n = 0"
      proof (rule ccontr)
        assume "n \<noteq> 0"
        then have "0 < n" by simp
        with n(2) have "h_below cr chars width height (font_size * 1.1 ^ 0) (scale_x * 1.1) scale_y"
          by blast
        with high show False by (simp add: below)
      qed
      with n(1) have f': "f' = font_size" by simp
      have "\<exists>m. f' = font_size * 1.1 ^ m
               \<and> \<not> h_below cr chars width height f' scale_x scale_y
               \<and> (\<forall>j<m. h_below cr chars width height (font_size * 1.1 ^ j) scale_x scale_y)"
        using wide(2) f' by (intro exI [of _ 0]) simp
      with r True rest show ?thesis by (simp add: h_exit_def)
    qed
  next
    case tall
    with body have "loop chars width height threshold extents ?cr1 font_size scale_x (scale_y * 1.1) = Some r"
      by (auto simp add: below)
    then have ih: "h_exit ?cr1 chars width height extents font_size scale_x (scale_y * 1.1) r"
      by (rule 1(1))
    obtain b cr' f' sx' sy' where r: "r = (b, cr', f', sx', sy')" by (cases r)
    show ?thesis
    proof (cases b)
      case False
      with r show ?thesis by (simp add: h_exit_def)
    next
      case True
      with ih r obtain n where n: "f' = font_size * 1.1 ^ n"
        "\<forall>j<n. h_below cr chars width height (font_size * 1.1 ^ j) scale_x (scale_y * 1.1)"
        and rest: "cr' = cairo_set_font_size cr f'" "0 < scale_x \<longrightarrow> 0 < sx'"
        "0 < scale_y * 1.1 \<longrightarrow> 0 < sy'" "f' < 10000" "te_width extents \<noteq> 0" "te_height extents \<noteq> 0"
        by (auto simp add: h_exit_def)
      have "n = 0"
      proof (rule ccontr)
        assume "n \<noteq> 0"
        then have "0 < n" by simp
        with n(2) have "h_below cr chars width height (font_size * 1.1 ^ 0) scale_x (scale_y * 1.1)"
          by blast
        with tall(4) show False by (simp add: below)
      qed
      with n(1) have f': "f' = font_size" by simp
      have "\<exists>m. f' = font_size * 1.1 ^ m
               \<and> \<not> h_below cr chars width height f' scale_x scale_y
               \<and> (\<forall>j<m. h_below cr chars width height (font_size * 1.1 ^ j) scale_x scale_y)"
        using tall(2) f' by (intro exI [of _ 0]) simp
      with r True rest show ?thesis by (simp add: h_exit_def)
    qed
  qed
qed


lemma inverse_le_threshold:
  fixes threshold :: real
  assumes "1 \<le> threshold"
  shows "1 / threshold \<le> threshold"
proof -
  have "1 / threshold \<le> 1" using assms by simp
  also have "1 \<le> threshold" by (rule assms)
  finally show ?thesis .
qed

lemma h_aspect_fst:
  "fst (pdf_scaling_h_aspect threshold text_width text_height len scale_x scale_y) =
     (if h_ratio_exceeds threshold text_width text_height len scale_x scale_y
      then threshold * (text_height * scale_y) * len / text_width else scale_x)"
  by (simp add: pdf_scaling_h_aspect_def Let_def)

lemma h_aspect_snd:
  "snd (pdf_scaling_h_aspect threshold text_width text_height len scale_x scale_y) =
     (if h_inverse_exceeds threshold text_width text_height len
           (fst (pdf_scaling_h_aspect threshold text_width text_height len scale_x scale_y)) scale_y
      then threshold * (text_width
             * fst (pdf_scaling_h_aspect threshold text_width text_height len scale_x scale_y) / len)
             / text_height
      else scale_y)"
  by (simp add: pdf_scaling_h_aspect_def Let_def)

lemma h_aspect_cap:
  assumes T: "1 \<le> threshold" and tw: "0 < text_width" and th: "0 < text_height"
    and len: "0 < len" and sx: "0 < scale_x" and sy: "0 < scale_y"
    and asp: "pdf_scaling_h_aspect threshold text_width text_height len scale_x scale_y = (sx', sy')"
  shows "0 < sx' \<and> 0 < sy'
         \<and> (text_width * sx' / len) / (text_height * sy') \<le> threshold
         \<and> (text_height * sy') / (text_width * sx' / len) \<le> threshold"
proof -
  define a where "a = text_width * scale_x / len"
  define b where "b = text_height * scale_y"
  have a: "0 < a" and b: "0 < b" using tw th len sx sy by (simp_all add: a_def b_def)
  have T0: "0 < threshold" using T by simp
  have Tinv: "1 / threshold \<le> threshold" using T by (rule inverse_le_threshold)
  have f: "fst (pdf_scaling_h_aspect threshold text_width text_height len scale_x scale_y) = sx'"
    and g: "snd (pdf_scaling_h_aspect threshold text_width text_height len scale_x scale_y) = sy'"
    using asp by simp_all
  have fst_eq: "sx' = (if a / b > threshold then threshold * b * len / text_width else scale_x)"
    using h_aspect_fst [of threshold text_width text_height len scale_x scale_y]
    unfolding f h_ratio_exceeds_def a_def b_def by simp
  have snd_eq: "sy' = (if b / (text_width * sx' / len) > threshold
                       then threshold * (text_width * sx' / len) / text_height else scale_y)"
    using h_aspect_snd [of threshold text_width text_height len scale_x scale_y]
    unfolding f g h_inverse_exceeds_def b_def by simp
  show ?thesis
  proof (cases "a / b > threshold")
    case True
    with fst_eq have x: "sx' = threshold * b * len / text_width" by simp
    have a1: "text_width * sx' / len = threshold * b" using tw len by (simp add: x)
    have inv: "b / (threshold * b) = 1 / threshold" using b by simp
    have y: "sy' = scale_y" using snd_eq Tinv inv by (simp add: a1)
    have "0 < sx'" using T0 b len tw by (simp add: x)
    moreover have "(text_width * sx' / len) / b \<le> threshold" using a1 b by simp
    moreover have "b / (text_width * sx' / len) \<le> threshold" using a1 inv Tinv by simp
    ultimately show ?thesis using y sy by (simp add: b_def)
  next
    case False
    with fst_eq have x: "sx' = scale_x" by simp
    show ?thesis
    proof (cases "b / a > threshold")
      case True
      with snd_eq x have y: "sy' = threshold * a / text_height" by (simp add: a_def)
      have b1: "text_height * sy' = threshold * a" using th by (simp add: y)
      have inv: "a / (threshold * a) = 1 / threshold" using a by simp
      have "0 < sy'" using T0 a th by (simp add: y)
      moreover have "a / (text_height * sy') \<le> threshold" using b1 inv Tinv by simp
      moreover have "(text_height * sy') / a \<le> threshold" using b1 a by simp
      ultimately show ?thesis using x sx by (simp add: a_def)
    next
      case n2: False
      with snd_eq x have y: "sy' = scale_y" by (simp add: a_def)
      from False n2 show ?thesis using x y sx sy by (simp add: a_def b_def)
    qed
  qed
qed

lemma h_aspect_exclusive:
  assumes T: "1 \<le> threshold"
  shows "\<not> (h_ratio_exceeds threshold text_width text_height len scale_x scale_y
            \<and> h_inverse_exceeds threshold text_width text_height len
                  (fst (pdf_scaling_h_aspect threshold text_width text_height len scale_x scale_y))
                  scale_y)"
proof
  assume both: "h_ratio_exceeds threshold text_width text_height len scale_x scale_y
            \<and> h_inverse_exceeds threshold text_width text_height len
                  (fst (pdf_scaling_h_aspect threshold text_width text_height len scale_x scale_y))
                  scale_y"
  define b where "b = text_height * scale_y"
  define x1 where "x1 = threshold * b * len / text_width"
  from both have first: "(text_width * scale_x / len) / b > threshold"
    by (simp add: h_ratio_exceeds_def b_def)
  with T have nz: "text_width \<noteq> 0" "len \<noteq> 0" "b \<noteq> 0" by auto
  from both have x: "fst (pdf_scaling_h_aspect threshold text_width text_height len scale_x scale_y) = x1"
    by (simp add: h_aspect_fst x1_def b_def)
  have a1: "text_width * x1 / len = threshold * b" using nz by (simp add: x1_def)
  from both have "b / (text_width * x1 / len) > threshold"
    by (simp only: x h_inverse_exceeds_def b_def)
  then have "b / (threshold * b) > threshold" by (simp only: a1)
  moreover have "b / (threshold * b) = 1 / threshold" using nz by simp
  moreover have "1 / threshold \<le> threshold" using T by (rule inverse_le_threshold)
  ultimately show False by simp
qed


lemma pdf_scaling_h_text_success:
  assumes "pdf_scaling_h_text cr utf8_text width height threshold extents
             = Some (True, cr', font_size, scale_x', scale_y')"
  shows "\<exists>cr1 scale_x scale_y.
           c_str utf8_text \<noteq> []
           \<and> pdf_scaling_h_loop (u8_split_chars [] utf8_text) width height threshold extents
                 cr 10 1 1 = Some (True, cr1, font_size, scale_x, scale_y)
           \<and> cr' = cairo_set_font_size cr1 font_size
           \<and> pdf_scaling_h_aspect threshold
                 (fst (pdf_get_h_text_width_and_height cr' (u8_split_chars [] utf8_text)))
                 (snd (pdf_get_h_text_width_and_height cr' (u8_split_chars [] utf8_text)))
                 (real (u8_len utf8_text)) scale_x scale_y = (scale_x', scale_y')"
  using assms
  by (auto simp add: pdf_scaling_h_text_def Let_def split: if_splits option.splits bool.splits)

lemma h_loop_from_start:
  assumes "pdf_scaling_h_loop chars width height threshold extents cr 10 1 1
             = Some (True, cr1, font_size, scale_x, scale_y)"
  shows "\<exists>n. font_size = 10 * 1.1 ^ n
           \<and> \<not> h_below cr chars width height font_size 1 1
           \<and> (\<forall>j<n. h_below cr chars width height (10 * 1.1 ^ j) 1 1)"
    and "cr1 = cairo_set_font_size cr font_size" and "0 < scale_x" and "0 < scale_y"
    and "font_size < 10000" and "te_width extents \<noteq> 0" and "te_height extents \<noteq> 0"
  using h_loop_exit [OF assms] by (simp_all add: h_exit_def)


lemma pdf_get_h_loop_fst:
  "fst (pdf_get_h_loop cr fe tw th chars)
     = tw + sum_list (map (\<lambda>c. te_x_advance (cairo_text_extents cr c)) chars)"
  by (induction chars arbitrary: tw th) (simp_all add: Let_def)

lemma pdf_get_h_loop_snd_ge: "th \<le> snd (pdf_get_h_loop cr fe tw th chars)"
proof (induction chars arbitrary: tw th)
  case Nil
  show ?case by simp
next
  case (Cons c chars)
  let ?th1 = "if th < te_height (cairo_text_extents cr c) then te_height (cairo_text_extents cr c) else th"
  let ?th2 = "if ?th1 < fe_height fe then fe_height fe else ?th1"
  have "th \<le> ?th2" by simp
  also have "?th2 \<le> snd (pdf_get_h_loop cr fe (tw + te_x_advance (cairo_text_extents cr c)) ?th2 chars)"
    by (rule Cons.IH)
  finally show ?case by (simp add: Let_def)
qed

lemma pdf_get_h_text_width_positive:
  assumes "chars \<noteq> []" and "\<forall>c\<in>set chars. 0 < te_x_advance (cairo_text_extents cr c)"
  shows "0 < fst (pdf_get_h_text_width_and_height cr chars)"
proof -
  from assms have "0 < sum_list (map (\<lambda>c. te_x_advance (cairo_text_extents cr c)) chars)"
  proof (induction chars)
    case Nil
    then show ?case by simp
  next
    case (Cons c chars)
    show ?case
    proof (cases "chars = []")
      case True
      with Cons.prems show ?thesis by simp
    next
      case False
      with Cons have "0 < sum_list (map (\<lambda>c. te_x_advance (cairo_text_extents cr c)) chars)"
        by simp
      with Cons.prems show ?thesis by simp
    qed
  qed
  then show ?thesis
    by (simp add: pdf_get_h_text_width_and_height_def pdf_get_h_loop_fst)
qed

lemma pdf_get_h_text_height_positive:
  assumes "chars \<noteq> []" and "\<forall>c\<in>set chars. 0 < te_height (cairo_text_extents cr c)"
  shows "0 < snd (pdf_get_h_text_width_and_height cr chars)"
proof -
  from assms obtain c cs where chars: "chars = c # cs" by (cases chars) auto
  let ?fe = "cairo_font_extents cr"
  let ?th1 = "if (0::real) < te_height (cairo_text_extents cr c) then te_height (cairo_text_extents cr c) else 0"
  let ?th2 = "if ?th1 < fe_height ?fe then fe_height ?fe else ?th1"
  from assms chars have "0 < ?th1" by simp
  then have "0 < ?th2" by simp
  also have "?th2 \<le> snd (pdf_get_h_loop cr ?fe (0 + te_x_advance (cairo_text_extents cr c)) ?th2 cs)"
    by (rule pdf_get_h_loop_snd_ge)
  finally show ?thesis
    by (simp add: pdf_get_h_text_width_and_height_def chars Let_def)
qed

lemma u8_split_chars_nonempty:
  assumes "c_str str \<noteq> []"
  shows "u8_split_chars [] str \<noteq> []"
proof
  assume "u8_split_chars [] str = []"
  then have "concat (u8_split_chars [] str) = []" by simp
  with u8_split_chars_concat [of "[]" str] assms show False by simp
qed





subsection \<open>The horizontal solver returns\<close>

text \<open>
  When the glyphs of the Row have positive advance and height at every font size from
  10 on, the search loop ends: a phase that enlarges \<open>scale_x\<close> or \<open>scale_y\<close> ends because
  the scaled extent grows geometrically, and the font size reaches the guard 10000 after
  finitely many steps. So the solver returns, with \<open>true\<close> or with \<open>false\<close>.
\<close>

lemma h_loop_wide_returns:
  assumes th: "\<not> snd (pdf_get_h_text_width_and_height (cairo_set_font_size cr font_size) chars) * scale_y
                  < height * 0.9"
    and m: "width * 0.9
              \<le> fst (pdf_get_h_text_width_and_height (cairo_set_font_size cr font_size) chars)
                  * (scale_x * 1.1 ^ m)"
  shows "\<exists>r. pdf_scaling_h_loop chars width height threshold extents cr font_size scale_x scale_y
               = Some r"
  using th m
proof (induction m arbitrary: cr scale_x)
  case 0
  then show ?case
    by (subst pdf_scaling_h_loop.simps) (auto simp add: Let_def)
next
  case (Suc m)
  let ?cr1 = "cairo_set_font_size cr font_size"
  have "\<exists>r. pdf_scaling_h_loop chars width height threshold extents ?cr1 font_size
               (scale_x * 1.1) scale_y = Some r"
  proof (rule Suc.IH)
    show "\<not> snd (pdf_get_h_text_width_and_height (cairo_set_font_size ?cr1 font_size) chars)
              * scale_y < height * 0.9"
      using Suc.prems(1) by simp
    show "width * 0.9
            \<le> fst (pdf_get_h_text_width_and_height (cairo_set_font_size ?cr1 font_size) chars)
                * (scale_x * 1.1 * 1.1 ^ m)"
      using Suc.prems(2) by (simp add: mult.assoc)
  qed
  with Suc.prems(1) show ?case
    by (subst pdf_scaling_h_loop.simps) (auto simp add: Let_def)
qed

lemma h_loop_tall_returns:
  assumes tw: "\<not> fst (pdf_get_h_text_width_and_height (cairo_set_font_size cr font_size) chars) * scale_x
                  < width * 0.9"
    and m: "height * 0.9
              \<le> snd (pdf_get_h_text_width_and_height (cairo_set_font_size cr font_size) chars)
                  * (scale_y * 1.1 ^ m)"
  shows "\<exists>r. pdf_scaling_h_loop chars width height threshold extents cr font_size scale_x scale_y
               = Some r"
  using tw m
proof (induction m arbitrary: cr scale_y)
  case 0
  then show ?case
    by (subst pdf_scaling_h_loop.simps) (auto simp add: Let_def)
next
  case (Suc m)
  let ?cr1 = "cairo_set_font_size cr font_size"
  have "\<exists>r. pdf_scaling_h_loop chars width height threshold extents ?cr1 font_size
               scale_x (scale_y * 1.1) = Some r"
  proof (rule Suc.IH)
    show "\<not> fst (pdf_get_h_text_width_and_height (cairo_set_font_size ?cr1 font_size) chars)
              * scale_x < width * 0.9"
      using Suc.prems(1) by simp
    show "height * 0.9
            \<le> snd (pdf_get_h_text_width_and_height (cairo_set_font_size ?cr1 font_size) chars)
                * (scale_y * 1.1 * 1.1 ^ m)"
      using Suc.prems(2) by (simp add: mult.assoc)
  qed
  with Suc.prems(1) show ?case
    by (subst pdf_scaling_h_loop.simps) (auto simp add: Let_def)
qed

lemma power_reaches:
  fixes a b :: real
  assumes "0 < b"
  shows "\<exists>m. a \<le> b * 1.1 ^ m"
proof -
  obtain m where "a / b < 1.1 ^ m" using real_arch_pow [of "1.1" "a / b"] by auto
  with assms have "a < b * 1.1 ^ m" by (simp add: pos_divide_less_eq mult.commute)
  then show ?thesis by (intro exI [of _ m]) simp
qed

lemma h_loop_returns:
  assumes tw: "\<And>fsize. 10 \<le> fsize \<Longrightarrow>
                 0 < fst (pdf_get_h_text_width_and_height (cairo_set_font_size cr0 fsize) chars)"
    and th: "\<And>fsize. 10 \<le> fsize \<Longrightarrow>
                 0 < snd (pdf_get_h_text_width_and_height (cairo_set_font_size cr0 fsize) chars)"
    and n: "10000 \<le> font_size * 1.1 ^ n" and f: "10 \<le> font_size"
    and sx: "0 < scale_x" and sy: "0 < scale_y"
  shows "\<exists>r. pdf_scaling_h_loop chars width height threshold extents
               (cairo_set_font_size cr0 a) font_size scale_x scale_y = Some r"
  using n f
proof (induction n arbitrary: font_size a)
  case 0
  then show ?case
    by (subst pdf_scaling_h_loop.simps) (auto simp add: Let_def)
next
  case (Suc n)
  let ?cr1 = "cairo_set_font_size cr0 font_size"
  let ?tw = "fst (pdf_get_h_text_width_and_height ?cr1 chars)"
  let ?th = "snd (pdf_get_h_text_width_and_height ?cr1 chars)"
  have grow: "\<exists>r. pdf_scaling_h_loop chars width height threshold extents ?cr1
                 (font_size * 1.1) scale_x scale_y = Some r"
  proof (rule Suc.IH)
    show "10000 \<le> font_size * 1.1 * 1.1 ^ n" using Suc.prems(1) by (simp add: mult.assoc)
    show "10 \<le> font_size * 1.1" using Suc.prems(2) by simp
  qed
  have wide: "\<exists>r. pdf_scaling_h_loop chars width height threshold extents ?cr1
                 font_size (scale_x * 1.1) scale_y = Some r"
    if "\<not> ?th * scale_y < height * 0.9"
  proof -
    have "0 < ?tw * (scale_x * 1.1)" using tw [OF Suc.prems(2)] sx by simp
    from power_reaches [OF this, of "width * 0.9"] obtain m where
      "width * 0.9 \<le> ?tw * (scale_x * 1.1 * 1.1 ^ m)" by (auto simp add: mult.assoc)
    with that show ?thesis by (intro h_loop_wide_returns [where m = m]) simp_all
  qed
  have tall: "\<exists>r. pdf_scaling_h_loop chars width height threshold extents ?cr1
                 font_size scale_x (scale_y * 1.1) = Some r"
    if "\<not> ?tw * scale_x < width * 0.9"
  proof -
    have "0 < ?th * (scale_y * 1.1)" using th [OF Suc.prems(2)] sy by simp
    from power_reaches [OF this, of "height * 0.9"] obtain m where
      "height * 0.9 \<le> ?th * (scale_y * 1.1 * 1.1 ^ m)" by (auto simp add: mult.assoc)
    with that show ?thesis by (intro h_loop_tall_returns [where m = m]) simp_all
  qed
  from grow wide tall show ?case
    by (subst pdf_scaling_h_loop.simps) (auto simp add: Let_def)
qed

lemma pdf_scaling_h_text_returns:
  assumes pos: "\<forall>fsize c. 10 \<le> fsize \<longrightarrow> c \<in> set (u8_split_chars [] utf8_text) \<longrightarrow>
                  0 < te_x_advance (cairo_text_extents (cairo_set_font_size cr fsize) c)
                  \<and> 0 < te_height (cairo_text_extents (cairo_set_font_size cr fsize) c)"
  shows "\<exists>r. pdf_scaling_h_text cr utf8_text width height threshold extents = Some r"
proof (cases "c_str utf8_text = []")
  case True
  then show ?thesis by (auto simp add: pdf_scaling_h_text_def)
next
  case False
  let ?chars = "u8_split_chars [] utf8_text"
  have chars: "?chars \<noteq> []" using False by (rule u8_split_chars_nonempty)
  have tw: "0 < fst (pdf_get_h_text_width_and_height (cairo_set_font_size cr fsize) ?chars)"
    if "10 \<le> fsize" for fsize
    using chars pos that by (intro pdf_get_h_text_width_positive) auto
  have th: "0 < snd (pdf_get_h_text_width_and_height (cairo_set_font_size cr fsize) ?chars)"
    if "10 \<le> fsize" for fsize
    using chars pos that by (intro pdf_get_h_text_height_positive) auto
  from power_reaches [of 10 10000] obtain n where n: "(10000::real) \<le> 10 * 1.1 ^ n" by auto
  have "\<exists>r. pdf_scaling_h_loop ?chars width height threshold extents
               (cairo_set_font_size cr (cr_font_size cr)) 10 1 1 = Some r"
    by (rule h_loop_returns [OF tw th n]) simp_all
  moreover have "cairo_set_font_size cr (cr_font_size cr) = cr"
    by (simp add: cairo_set_font_size_def)
  ultimately obtain r where
    r: "pdf_scaling_h_loop ?chars width height threshold extents cr 10 1 1 = Some r" by auto
  obtain b cr1 fs sx sy where "r = (b, cr1, fs, sx, sy)" by (cases r)
  with r False show ?thesis
    by (cases b) (auto simp add: pdf_scaling_h_text_def Let_def)
qed


subsection \<open>Evaluation on the example font\<close>

lemma example_split:
  "u8_split_chars [] [0x61] = [[0x61]]" "u8_split_chars [] [0x20] = [[0x20]]"
  "u8_split_chars [] [0x2E] = [[0x2E]]" "u8_split_chars [] [0x6C] = [[0x6C]]"
  "u8_len [0x61] = 1" "u8_len [0x20] = 1"
  by (simp_all add: u8_split_chars_def u8_len_def u8_is_lead_def)

lemma example_h_measure:
  "pdf_get_h_text_width_and_height (cairo_set_font_size example_font 10) [[0x61]] = (5, 12)"
  "pdf_get_h_text_width_and_height (cairo_set_font_size example_font 11) [[0x61]] = (11 / 2, 66 / 5)"
  "pdf_get_h_text_width_and_height (cairo_set_font_size example_font 10) [[0x20]] = (5, 12)"
  by (simp_all add: pdf_get_h_text_width_and_height_def cairo_set_font_size_def
      cairo_text_extents_def cairo_font_extents_def example_font_def glyph_def c_str_def Let_def)






lemma example_h_text_space:
  "pdf_scaling_h_text example_font [0x20] 5 12 (3 / 2) stack_ones
     = Some (True, cairo_set_font_size example_font 10, 10, 1, 5 / 8)"
proof -
  have "pdf_scaling_h_loop [[0x20]] 5 12 (3 / 2) stack_ones example_font 10 1 1
     = Some (True, cairo_set_font_size example_font 10, 10, 1, 1)"
    by (subst pdf_scaling_h_loop.simps)
       (simp add: example_h_measure stack_ones_def glyph_def)
  then show ?thesis
    by (simp add: pdf_scaling_h_text_def c_str_def example_split
        example_h_measure pdf_scaling_h_aspect_def h_ratio_exceeds_def h_inverse_exceeds_def)
qed

lemma pdf_scaling_h_text_stack_zero:
  assumes "c_str utf8_text \<noteq> []" and "te_width extents = 0 \<or> te_height extents = 0"
  shows "pdf_scaling_h_text cr utf8_text width height threshold extents
           = Some (False, cairo_set_font_size cr 10, 10, 1, 1)"
proof -
  from assms(2)
  have "pdf_scaling_h_loop (u8_split_chars [] utf8_text) width height threshold extents cr 10 1 1
          = Some (False, cairo_set_font_size cr 10, 10, 1, 1)"
    by (subst pdf_scaling_h_loop.simps) (simp add: Let_def)
  with assms(1) show ?thesis by (simp add: pdf_scaling_h_text_def)
qed

text \<open>
  What makes the horizontal solver return \<open>false\<close>: an empty text, the guard on the font
  size, or the contents of the unassigned variable. The measured metrics have no part
  in it.
\<close>

lemma h_loop_false:
  assumes "pdf_scaling_h_loop chars width height threshold extents cr font_size scale_x scale_y
             = Some r"
  shows "fst r \<or> 10000 \<le> fst (snd (snd r)) \<or> te_width extents = 0 \<or> te_height extents = 0"
  using assms
proof (induction rule: pdf_scaling_h_loop.raw_induct [rotated 1, consumes 1])
  case (1 loop chars width height threshold extents cr font_size scale_x scale_y r)
  from 1(2) show ?case
    by (auto simp add: Let_def split: if_splits dest: 1(1))
qed

lemma pdf_scaling_h_text_false:
  assumes "pdf_scaling_h_text cr utf8_text width height threshold extents
             = Some (False, cr', font_size, scale_x, scale_y)"
  shows "c_str utf8_text = [] \<or> 10000 \<le> font_size
         \<or> te_width extents = 0 \<or> te_height extents = 0"
proof (cases "c_str utf8_text = []")
  case True
  then show ?thesis by simp
next
  case False
  with assms have
    "pdf_scaling_h_loop (u8_split_chars [] utf8_text) width height threshold extents cr 10 1 1
       = Some (False, cr', font_size, scale_x, scale_y)"
    by (auto simp add: pdf_scaling_h_text_def Let_def split: option.splits bool.splits)
  from h_loop_false [OF this] show ?thesis by simp
qed


subsection \<open>The aspect ratio after a horizontal fit, in exact arithmetic\<close>

text \<open>
  In exact arithmetic, after a successful horizontal fit of a Row of \<open>N \<ge> 1\<close> characters
  with threshold \<open>T \<ge> 1\<close> whose text width and text height, measured again in the
  returned drawing context, are positive, the returned scale factors are positive and
  satisfy \<open>(text_width * scale_x / N) / (text_height * scale_y) \<le> T\<close> and
  \<open>(text_height * scale_y) / (text_width * scale_x / N) \<le> T\<close>. What the program does
  with a Row of width zero is in the section on binary64 arithmetic.
\<close>

lemma pdf_scaling_h_text_cap_exact:
  assumes run: "pdf_scaling_h_text cr utf8_text width height threshold extents
                  = Some (True, cr', font_size, scale_x, scale_y)"
    and T: "1 \<le> threshold"
    and N: "0 < u8_len utf8_text"
    and tw: "0 < fst (pdf_get_h_text_width_and_height cr' (u8_split_chars [] utf8_text))"
    and th: "0 < snd (pdf_get_h_text_width_and_height cr' (u8_split_chars [] utf8_text))"
  shows "cr' = cairo_set_font_size cr font_size
         \<and> 0 < scale_x \<and> 0 < scale_y
         \<and> (fst (pdf_get_h_text_width_and_height cr' (u8_split_chars [] utf8_text)) * scale_x
              / real (u8_len utf8_text))
            / (snd (pdf_get_h_text_width_and_height cr' (u8_split_chars [] utf8_text)) * scale_y)
            \<le> threshold
         \<and> (snd (pdf_get_h_text_width_and_height cr' (u8_split_chars [] utf8_text)) * scale_y)
            / (fst (pdf_get_h_text_width_and_height cr' (u8_split_chars [] utf8_text)) * scale_x
                / real (u8_len utf8_text))
            \<le> threshold"
proof -
  from pdf_scaling_h_text_success [OF run] obtain cr1 sx sy where
    l: "pdf_scaling_h_loop (u8_split_chars [] utf8_text) width height threshold extents
          cr 10 1 1 = Some (True, cr1, font_size, sx, sy)"
    and c: "cr' = cairo_set_font_size cr1 font_size"
    and a: "pdf_scaling_h_aspect threshold
              (fst (pdf_get_h_text_width_and_height cr' (u8_split_chars [] utf8_text)))
              (snd (pdf_get_h_text_width_and_height cr' (u8_split_chars [] utf8_text)))
              (real (u8_len utf8_text)) sx sy = (scale_x, scale_y)"
    by blast
  from h_loop_from_start(3,4) [OF l] have pos: "0 < sx" "0 < sy" .
  from h_loop_from_start(2) [OF l] c have c': "cr' = cairo_set_font_size cr font_size" by simp
  from N have len: "0 < real (u8_len utf8_text)" by simp
  from h_aspect_cap [OF T tw th len pos a] c' show ?thesis by simp
qed

subsection \<open>Font size and scale factors of a horizontal fit\<close>




subsection \<open>When the horizontal fit fails\<close>

text \<open>
  Claim C3 says that the horizontal solver returns \<open>false\<close> exactly when the Row is
  empty, or the glyph metrics measured for the Row are zero, or the font size reaches
  10000. The program does not do that: its test of the metrics reads the variable
  \<open>extents\<close>, which is never assigned, so the outcome does not depend on what was
  measured (\<open>pdf_scaling_h_text_stack_zero\<close>, \<open>pdf_scaling_h_text_false\<close>). When the
  variable holds zeros, a Row \<open>a\<close> with a glyph of 5 by 5 at the first font size 10 makes
  the solver return \<open>false\<close>; when it holds anything else, a Row of one space, whose glyph
  has width 0 and height 0, makes it return \<open>true\<close>.
\<close>

theorem pdf_scaling_h_text_ignores_metrics:
  "te_width (cairo_text_extents (cairo_set_font_size example_font 10) [0x61]) = 5
   \<and> te_height (cairo_text_extents (cairo_set_font_size example_font 10) [0x61]) = 5
   \<and> pdf_scaling_h_text example_font [0x61] 100 100 (3 / 2) stack_zeros
        = Some (False, cairo_set_font_size example_font 10, 10, 1, 1)
   \<and> te_width (cairo_text_extents (cairo_set_font_size example_font 10) [0x20]) = 0
   \<and> te_height (cairo_text_extents (cairo_set_font_size example_font 10) [0x20]) = 0
   \<and> pdf_scaling_h_text example_font [0x20] 5 12 (3 / 2) stack_ones
        = Some (True, cairo_set_font_size example_font 10, 10, 1, 5 / 8)"
proof -
  have zero: "pdf_scaling_h_text example_font [0x61] 100 100 (3 / 2) stack_zeros
        = Some (False, cairo_set_font_size example_font 10, 10, 1, 1)"
    by (rule pdf_scaling_h_text_stack_zero) (simp_all add: c_str_def stack_zeros_def glyph_def)
  have glyphs:
    "te_width (cairo_text_extents (cairo_set_font_size example_font 10) [0x61]) = 5"
    "te_height (cairo_text_extents (cairo_set_font_size example_font 10) [0x61]) = 5"
    "te_width (cairo_text_extents (cairo_set_font_size example_font 10) [0x20]) = 0"
    "te_height (cairo_text_extents (cairo_set_font_size example_font 10) [0x20]) = 0"
    by (simp_all add: cairo_text_extents_def cairo_set_font_size_def
        example_font_def glyph_def c_str_def)
  from zero glyphs example_h_text_space show ?thesis by (intro conjI)
qed

section \<open>Properties of the horizontal fit solver in binary64 arithmetic\<close>

text \<open>
  \<open>b64_binade\<close> finds the exponent: for a number \<open>x\<close> from \<open>two_power (- fuel)\<close> up
  to \<open>two_power (fuel + 1)\<close> it gives the \<open>e\<close> with \<open>two_power e \<le> x < two_power (e + 1)\<close>.
\<close>

lemma two_power_Suc: "two_power (e + 1) = 2 * two_power e"
proof (cases "0 \<le> e")
  case True
  then have "nat (e + 1) = Suc (nat e)" by simp
  with True show ?thesis by (simp add: two_power_def)
next
  case False
  then obtain n where n: "nat (- e) = Suc n" by (cases "nat (- e)") auto
  then have m: "nat (- (e + 1)) = n" by simp
  show ?thesis
  proof (cases "e = - 1")
    case True
    then show ?thesis by (simp add: two_power_def)
  next
    case neq: False
    with False have "\<not> 0 \<le> e + 1" by simp
    with False n m show ?thesis by (simp only: two_power_def if_False power_Suc)
  qed
qed

lemma two_power_pred: "two_power (e - 1) = two_power e / 2"
  using two_power_Suc [of "e - 1"] by simp

lemma two_power_le_one: "e \<le> 0 \<Longrightarrow> two_power e \<le> 1"
  by (cases "e = 0") (simp_all add: two_power_def)

lemma two_power_ge_two: "1 \<le> e \<Longrightarrow> 2 \<le> two_power e"
proof -
  assume "1 \<le> e"
  then obtain n where "nat e = Suc n" by (cases "nat e") auto
  moreover have "(1::real) \<le> 2 ^ n" by simp
  ultimately show ?thesis using \<open>1 \<le> e\<close> by (simp add: two_power_def)
qed

lemma b64_binade_correct:
  assumes "two_power (- int fuel) \<le> x" and "x < two_power (int fuel + 1)"
  shows "two_power (b64_binade fuel x) \<le> x \<and> x < two_power (b64_binade fuel x + 1)"
  using assms
proof (induction fuel arbitrary: x)
  case 0
  then show ?case by (simp add: two_power_def)
next
  case (Suc fuel)
  have "int (Suc fuel) + 1 = int fuel + 1 + 1" by simp
  then have up: "two_power (int (Suc fuel) + 1) = 2 * two_power (int fuel + 1)"
    by (simp only: two_power_Suc)
  have "- int (Suc fuel) = - int fuel - 1" by simp
  then have down: "two_power (- int (Suc fuel)) = two_power (- int fuel) / 2"
    by (simp only: two_power_pred)
  show ?case
  proof (cases "2 \<le> x")
    case True
    have "two_power (- int fuel) \<le> 1" by (rule two_power_le_one) simp
    with True have lo: "two_power (- int fuel) \<le> x / 2" by simp
    from Suc.prems(2) have "x < 2 * two_power (int fuel + 1)" by (simp only: up)
    then have hi: "x / 2 < two_power (int fuel + 1)" by linarith
    from Suc.IH [OF lo hi] have
      "two_power (b64_binade fuel (x / 2)) \<le> x / 2"
      "x / 2 < two_power (b64_binade fuel (x / 2) + 1)" by simp_all
    then have "two_power (b64_binade fuel (x / 2)) \<le> x / 2"
      "x / 2 < 2 * two_power (b64_binade fuel (x / 2))"
      by (simp_all only: two_power_Suc)
    then have "2 * two_power (b64_binade fuel (x / 2)) \<le> x"
      "x < 2 * (2 * two_power (b64_binade fuel (x / 2)))"
      by linarith+
    then have "two_power (b64_binade fuel (x / 2) + 1) \<le> x"
      "x < two_power (b64_binade fuel (x / 2) + 1 + 1)"
      by (simp_all only: two_power_Suc)
    with True show ?thesis by simp
  next
    case False
    show ?thesis
    proof (cases "x < 1")
      case True
      from Suc.prems(1) have "two_power (- int fuel) / 2 \<le> x" by (simp only: down)
      then have lo: "two_power (- int fuel) \<le> x * 2" by linarith
      have "2 \<le> two_power (int fuel + 1)" by (rule two_power_ge_two) simp
      with True have hi: "x * 2 < two_power (int fuel + 1)" by simp
      from Suc.IH [OF lo hi] have
        "two_power (b64_binade fuel (x * 2)) \<le> x * 2"
        "x * 2 < two_power (b64_binade fuel (x * 2) + 1)" by simp_all
      then have "two_power (b64_binade fuel (x * 2)) \<le> x * 2"
        "x * 2 < 2 * two_power (b64_binade fuel (x * 2))"
        by (simp_all only: two_power_Suc)
      then have "two_power (b64_binade fuel (x * 2)) / 2 \<le> x"
        "x < two_power (b64_binade fuel (x * 2))"
        by linarith+
      then have "two_power (b64_binade fuel (x * 2) - 1) \<le> x"
        "x < two_power (b64_binade fuel (x * 2) - 1 + 1)"
        by (simp_all only: two_power_pred diff_add_cancel)
      with True False show ?thesis by simp
    next
      case one: False
      with False show ?thesis by (simp add: two_power_def)
    qed
  qed
qed

text \<open>The roundings of the examples, by evaluation.\<close>

lemma b64_binade_numeral:
  "b64_binade (numeral n) x =
     (if 2 \<le> x then b64_binade (pred_numeral n) (x / 2) + 1
      else if x < 1 then b64_binade (pred_numeral n) (x * 2) - 1
      else 0)"
  by (simp add: numeral_eq_Suc)

lemmas round_b64_simps = round_b64_def b64_ulp_exponent_def b64_binade_numeral two_power_def
  round_to_even_def Let_def

lemma round_b64_zero: "round_b64 0 = Finite 0"
  by (simp add: round_b64_def)

lemma b64_0_9: "round_b64 (9 / 10) = Finite (8106479329266893 / 9007199254740992)"
  by (simp add: round_b64_simps)

lemma b64_1_1: "round_b64 (11 / 10) = Finite (2476979795053773 / 2251799813685248)"
  by (simp add: round_b64_simps)

lemma b64_12: "round_b64 12 = Finite 12"
  by (simp add: round_b64_simps)

lemma b64_15: "round_b64 15 = Finite 15"
  by (simp add: round_b64_simps)

lemma b64_22: "round_b64 22 = Finite 22"
  by (simp add: round_b64_simps)

lemma b64_22_0_9:
  "d_mul (Finite 22) (Finite (8106479329266893 / 9007199254740992))
     = Finite (5573204538870989 / 281474976710656)"
  by (simp add: round_b64_simps)

lemma b64_12_0_9:
  "d_mul (Finite 12) (Finite (8106479329266893 / 9007199254740992))
     = Finite (3039929748475085 / 281474976710656)"
  by (simp add: round_b64_simps)

lemma b64_100_0_9:
  "d_mul (Finite 100) (Finite (8106479329266893 / 9007199254740992)) = Finite 90"
  by (simp add: round_b64_simps)

lemma b64_22_15: "d_div (Finite 22) (Finite 15) = Finite (6605279453476727 / 4503599627370496)"
  by (simp add: round_b64_simps)

lemma b64_15_22: "d_div (Finite 15) (Finite 22) = Finite (6141272219141585 / 9007199254740992)"
  by (simp add: round_b64_simps)

lemma b64_22_sx:
  "d_mul (Finite 22) (Finite (6141272219141585 / 9007199254740992))
     = Finite (8444249301319679 / 562949953421312)"
  by (simp add: round_b64_simps)

lemma b64_p: "round_b64 (8444249301319679 / 562949953421312) = Finite (8444249301319679 / 562949953421312)"
  by (simp add: round_b64_simps)

lemma b64_15_p:
  "d_div (Finite 15) (Finite (8444249301319679 / 562949953421312))
     = Finite (4503599627370497 / 4503599627370496)"
  by (simp add: round_b64_simps)

lemma b64_p_15:
  "d_div (Finite (8444249301319679 / 562949953421312)) (Finite 15)
     = Finite (9007199254740991 / 9007199254740992)"
  by (simp add: round_b64_simps)

lemma d_mul_one_right: "d_mul (Finite x) (Finite 1) = round_b64 x"
  by simp

lemma d_mul_one_left: "d_mul (Finite 1) (Finite x) = round_b64 x"
  by simp

lemma d_div_one: "d_div (Finite x) (Finite 1) = round_b64 x"
  by simp

lemma d_mul_zero_right: "d_mul (Finite x) (Finite 0) = Finite 0"
  by (simp add: round_b64_zero)

lemma d_div_zero_by: "y \<noteq> 0 \<Longrightarrow> d_div (Finite 0) (Finite y) = Finite 0"
  by (simp add: round_b64_zero)

lemma d_div_by_zero: "0 < x \<Longrightarrow> d_div (Finite x) (Finite 0) = PlusInf"
  by simp

lemma d_div_zero_zero: "d_div (Finite 0) (Finite 0) = NaN"
  by simp

lemmas b64_examples = d_mul_one_right d_mul_one_left d_div_one d_mul_zero_right d_div_zero_by
  d_div_by_zero d_div_zero_zero round_b64_zero b64_0_9 b64_1_1 b64_12 b64_15 b64_22 b64_22_0_9
  b64_12_0_9 b64_100_0_9 b64_22_15 b64_15_22 b64_22_sx b64_p b64_15_p b64_p_15

subsection \<open>A Row of width zero\<close>

text \<open>
  The zero width space (U+200B) has no glyph in the example font: its extents are zero,
  and the Row of this one character measures \<open>0\<close> by \<open>12\<close> at font size 10. With the
  box \<open>100 \<times> 12\<close> and the threshold \<open>1\<close> the loop ends at once, with both scale factors
  \<open>1\<close>.
\<close>

lemma example_zero_split:
  "u8_split_chars [] [0xE2, 0x80, 0x8B] = [[0xE2, 0x80, 0x8B]]" "u8_len [0xE2, 0x80, 0x8B] = 1"
  by (simp_all add: u8_split_chars_def u8_len_def u8_is_lead_def)

lemma example_zero_measure:
  "pdf_get_h_text_width_and_height_b64 (cairo_set_font_size example_font 10) [[0xE2, 0x80, 0x8B]]
     = (Finite 0, Finite 12)"
  by (simp add: pdf_get_h_text_width_and_height_b64_def cairo_font_extents_def
      cairo_text_extents_def cairo_set_font_size_def example_font_def glyph_def c_str_def
      round_b64_zero)

lemma example_zero_loop:
  "pdf_scaling_h_loop_b64 [[0xE2, 0x80, 0x8B]] (Finite 100) (Finite 12) (Finite 1) stack_ones
     example_font (Finite 10) (Finite 1) (Finite 1)
   = Some (True, cairo_set_font_size example_font 10, Finite 10, Finite 1, Finite 1)"
  by (subst pdf_scaling_h_loop_b64.simps)
    (simp add: cairo_set_font_size_b64_def example_zero_measure stack_ones_def glyph_def
      b64_examples del: d_mul.simps d_div.simps)

lemma example_zero_aspect:
  "pdf_scaling_h_aspect_b64 (Finite 1) (Finite 0) (Finite 12) (Finite 1) (Finite 1) (Finite 1)
     = (Finite 1, Finite 0)"
  by (simp add: pdf_scaling_h_aspect_b64_def h_ratio_b64_def h_inverse_b64_def Let_def
      b64_examples del: d_mul.simps d_div.simps)

lemma example_zero_text:
  "pdf_scaling_h_text_b64 example_font [0xE2, 0x80, 0x8B] (Finite 100) (Finite 12) (Finite 1) stack_ones
     = Some (True, cairo_set_font_size example_font 10, Finite 10, Finite 1, Finite 0)"
  by (simp add: pdf_scaling_h_text_b64_def example_zero_split example_zero_loop example_zero_measure
      example_zero_aspect cairo_set_font_size_b64_def c_str_def)

lemma example_zero_ratios:
  "h_ratio_b64 (Finite 0) (Finite 12) (Finite 1) (Finite 1) (Finite 0) = NaN"
  "h_inverse_b64 (Finite 0) (Finite 12) (Finite 1) (Finite 1) (Finite 0) = NaN"
  by (simp_all add: h_ratio_b64_def h_inverse_b64_def b64_examples del: d_mul.simps d_div.simps)

text \<open>
  Claim C1 fails on this Row. The fit succeeds: the solver returns \<open>true\<close>, since its
  test of the metrics reads the unassigned \<open>extents\<close> and not the measured width. The
  inverse ratio \<open>12 / 0\<close> is \<open>+\<infinity>\<close>, above the threshold, and the correction sets
  \<open>scale_y\<close> to \<open>1 * 0 / 12 = 0\<close>. At the returned scale factors both ratios of the
  claim are \<open>0 / 0\<close>, a NaN, and a NaN is not \<open>\<le> T\<close>.
\<close>

theorem pdf_scaling_h_text_zero_width:
  "pdf_scaling_h_text_b64 example_font [0xE2, 0x80, 0x8B] (Finite 100) (Finite 12) (Finite 1) stack_ones
     = Some (True, cairo_set_font_size example_font 10, Finite 10, Finite 1, Finite 0)
   \<and> pdf_get_h_text_width_and_height_b64 (cairo_set_font_size example_font 10)
        (u8_split_chars [] [0xE2, 0x80, 0x8B]) = (Finite 0, Finite 12)
   \<and> u8_len [0xE2, 0x80, 0x8B] = 1
   \<and> h_ratio_b64 (Finite 0) (Finite 12) (Finite 1) (Finite 1) (Finite 0) = NaN
   \<and> h_inverse_b64 (Finite 0) (Finite 12) (Finite 1) (Finite 1) (Finite 0) = NaN
   \<and> \<not> d_le (h_ratio_b64 (Finite 0) (Finite 12) (Finite 1) (Finite 1) (Finite 0)) (Finite 1)
   \<and> \<not> d_le (h_inverse_b64 (Finite 0) (Finite 12) (Finite 1) (Finite 1) (Finite 0)) (Finite 1)"
  by (simp add: example_zero_text example_zero_split example_zero_measure example_zero_ratios)

subsection \<open>The two tests of the horizontal aspect correction\<close>

text \<open>
  In exact arithmetic the two tests exclude each other when \<open>T \<ge> 1\<close>
  (\<open>h_aspect_exclusive\<close>): the first sets the ratio to \<open>T\<close>, and the inverse ratio is then
  \<open>1 / T \<le> T\<close>. In the program the new \<open>scale_x\<close> is rounded, and with \<open>T = 1\<close> the
  rounding can leave the inverse ratio above \<open>1\<close>. The Row \<open>a\<close> in the font of wide
  glyphs measures \<open>22\<close> by \<open>15\<close> at font size 10; with the box \<open>22 \<times> 15\<close> and the
  threshold \<open>1\<close> the loop ends at once, with both scale factors \<open>1\<close>.
\<close>

lemma example_wide_measure:
  "pdf_get_h_text_width_and_height_b64 (cairo_set_font_size example_wide_font 10) [[0x61]]
     = (Finite 22, Finite 15)"
  by (simp add: pdf_get_h_text_width_and_height_b64_def cairo_font_extents_def
      cairo_text_extents_def cairo_set_font_size_def example_wide_font_def glyph_def b64_22)

lemma example_wide_loop:
  "pdf_scaling_h_loop_b64 [[0x61]] (Finite 22) (Finite 15) (Finite 1) stack_ones
     example_wide_font (Finite 10) (Finite 1) (Finite 1)
   = Some (True, cairo_set_font_size example_wide_font 10, Finite 10, Finite 1, Finite 1)"
  by (subst pdf_scaling_h_loop_b64.simps)
    (simp add: cairo_set_font_size_b64_def example_wide_measure stack_ones_def glyph_def
      b64_examples del: d_mul.simps d_div.simps)

lemma example_wide_first:
  "d_less (Finite 1) (h_ratio_b64 (Finite 22) (Finite 15) (Finite 1) (Finite 1) (Finite 1))"
  by (simp add: h_ratio_b64_def b64_examples del: d_mul.simps d_div.simps)

lemma example_wide_second:
  "d_less (Finite 1) (h_inverse_b64 (Finite 22) (Finite 15) (Finite 1)
     (Finite (6141272219141585 / 9007199254740992)) (Finite 1))"
  by (simp add: h_inverse_b64_def b64_examples del: d_mul.simps d_div.simps)

lemma example_wide_aspect:
  "pdf_scaling_h_aspect_b64 (Finite 1) (Finite 22) (Finite 15) (Finite 1) (Finite 1) (Finite 1)
     = (Finite (6141272219141585 / 9007199254740992), Finite (9007199254740991 / 9007199254740992))"
  by (simp add: pdf_scaling_h_aspect_b64_def example_wide_first example_wide_second Let_def
      b64_examples del: d_mul.simps d_div.simps)

lemma example_wide_text:
  "pdf_scaling_h_text_b64 example_wide_font [0x61] (Finite 22) (Finite 15) (Finite 1) stack_ones
     = Some (True, cairo_set_font_size example_wide_font 10, Finite 10,
         Finite (6141272219141585 / 9007199254740992), Finite (9007199254740991 / 9007199254740992))"
  by (simp add: pdf_scaling_h_text_b64_def example_split example_wide_loop example_wide_measure
      example_wide_aspect cairo_set_font_size_b64_def c_str_def)

text \<open>
  Claim C6. There is an input, a Row, a positive box and a threshold \<open>T \<ge> 1\<close>, for
  which both tests fire and both scale factors are shrunk in one solve: the Row \<open>a\<close>
  above. The ratio \<open>22 / 15\<close> is above \<open>1\<close>, and \<open>scale_x\<close> becomes \<open>15 / 22\<close> rounded,
  \<open>6141272219141585 / 2\<^sup>5\<^sup>3\<close>, which is below \<open>15 / 22\<close>. So \<open>22 * scale_x\<close> is
  \<open>15 - 2\<^sup>-\<^sup>4\<^sup>9\<close>, the inverse ratio is \<open>1 + 2\<^sup>-\<^sup>5\<^sup>2\<close>, above \<open>1\<close>, and \<open>scale_y\<close> becomes
  \<open>1 - 2\<^sup>-\<^sup>5\<^sup>3\<close>.
\<close>

theorem pdf_scaling_h_text_both_checks:
  "d_less (Finite 0) (Finite 22) \<and> d_less (Finite 0) (Finite 15) \<and> d_le (Finite 1) (Finite 1)
   \<and> pdf_scaling_h_loop_b64 (u8_split_chars [] [0x61]) (Finite 22) (Finite 15) (Finite 1) stack_ones
        example_wide_font (Finite 10) (Finite 1) (Finite 1)
      = Some (True, cairo_set_font_size example_wide_font 10, Finite 10, Finite 1, Finite 1)
   \<and> pdf_get_h_text_width_and_height_b64 (cairo_set_font_size example_wide_font 10)
        (u8_split_chars [] [0x61]) = (Finite 22, Finite 15)
   \<and> u8_len [0x61] = 1
   \<and> d_less (Finite 1) (h_ratio_b64 (Finite 22) (Finite 15) (Finite 1) (Finite 1) (Finite 1))
   \<and> d_less (Finite 1) (h_inverse_b64 (Finite 22) (Finite 15) (Finite 1)
        (Finite (6141272219141585 / 9007199254740992)) (Finite 1))
   \<and> pdf_scaling_h_text_b64 example_wide_font [0x61] (Finite 22) (Finite 15) (Finite 1) stack_ones
      = Some (True, cairo_set_font_size example_wide_font 10, Finite 10,
          Finite (6141272219141585 / 9007199254740992),
          Finite (9007199254740991 / 9007199254740992))
   \<and> d_less (Finite (6141272219141585 / 9007199254740992)) (Finite 1)
   \<and> d_less (Finite (9007199254740991 / 9007199254740992)) (Finite 1)"
  by (simp add: example_split example_wide_loop example_wide_measure example_wide_first
      example_wide_second example_wide_text)

section \<open>Properties of the vertical fit solver\<close>

lemma pdf_scaling_v_aspect_one_axis:
  "pdf_scaling_v_aspect threshold text_width text_height len scale_x scale_y = (sx, sy)
   \<Longrightarrow> sx = scale_x \<or> sy = scale_y"
  by (auto simp add: pdf_scaling_v_aspect_def split: if_splits)

lemma pdf_scaling_v_text_success:
  assumes "pdf_scaling_v_text cr utf8_text width height threshold
             = Some (True, cr', font_size, scale_x', scale_y')"
  shows "\<exists>cr1 scale_x scale_y.
           c_str utf8_text \<noteq> []
           \<and> pdf_scaling_v_loop (u8_split_chars [] utf8_text) width height threshold
                 cr 10 1 1 = Some (True, cr1, font_size, scale_x, scale_y)
           \<and> cr' = cairo_set_font_size cr1 font_size
           \<and> pdf_scaling_v_aspect threshold
                 (fst (pdf_get_v_text_width_and_height cr' (u8_split_chars [] utf8_text)))
                 (snd (pdf_get_v_text_width_and_height cr' (u8_split_chars [] utf8_text)))
                 (real (length (u8_split_chars [] utf8_text))) scale_x scale_y
               = (scale_x', scale_y')"
  using assms
  by (auto simp add: pdf_scaling_v_text_def Let_def split: if_splits option.splits bool.splits)

lemma example_plain_chars:
  "\<not> u8_is_space [0x2E]" "\<not> u8_is_small_kana [0x2E]" "\<not> u8_is_hyphen_dash [0x2E]"
  "\<not> u8_is_paren_type_1 [0x2E]" "\<not> u8_is_paren_type_2 [0x2E]" "\<not> u8_is_paren_type_3 [0x2E]"
  "\<not> u8_is_space [0x6C]" "\<not> u8_is_small_kana [0x6C]" "\<not> u8_is_hyphen_dash [0x6C]"
  "\<not> u8_is_paren_type_1 [0x6C]" "\<not> u8_is_paren_type_2 [0x6C]" "\<not> u8_is_paren_type_3 [0x6C]"
  by (simp_all add: u8_is_space_def u8_is_small_kana_def u8_is_hyphen_dash_def
      u8_is_paren_type_1_def u8_is_paren_type_2_def u8_is_paren_type_3_def
      u8_contains_one_of_def u8_split_chars_def u8_is_lead_def c_str_def)

lemma example_v_measure:
  "pdf_get_v_text_width_and_height (cairo_set_font_size example_font 10) [[0x2E]] = (2, 2)"
  "pdf_get_v_text_width_and_height (cairo_set_font_size example_font 10) [[0x6C]] = (2, 7)"
  by (simp_all add: pdf_get_v_text_width_and_height_def example_plain_chars
      cairo_set_font_size_def cairo_text_extents_def example_font_def glyph_def c_str_def)

lemma example_v_text_l:
  "pdf_scaling_v_text example_font [0x6C] 2 7 (3 / 2)
     = Some (True, cairo_set_font_size example_font 10, 10, 1, 3 / 7)"
proof -
  have "pdf_scaling_v_loop [[0x6C]] 2 7 (3 / 2) example_font 10 1 1
     = Some (True, cairo_set_font_size example_font 10, 10, 1, 1)"
    by (subst pdf_scaling_v_loop.simps) (simp add: example_v_measure)
  then show ?thesis
    by (simp add: pdf_scaling_v_text_def c_str_def example_split example_v_measure
        pdf_scaling_v_aspect_def)
qed

lemma example_v_loop_l:
  "pdf_scaling_v_loop [[0x6C]] 2 7 (3 / 2) example_font 10 1 1
     = Some (True, cairo_set_font_size example_font 10, 10, 1, 1)"
  by (subst pdf_scaling_v_loop.simps) (simp add: example_v_measure)

text \<open>
  Claim C5. In the aspect correction of the vertical fit solver at most one of the two
  scale factors is changed: a successful solve returns the \<open>scale_x\<close> or the \<open>scale_y\<close>
  that its search loop has reached, whatever the input.
\<close>

theorem pdf_scaling_v_text_one_axis:
  assumes run: "pdf_scaling_v_text cr utf8_text width height threshold
             = Some (True, cr', font_size, scale_x', scale_y')"
  shows "\<exists>cr1 scale_x scale_y.
           pdf_scaling_v_loop (u8_split_chars [] utf8_text) width height threshold cr 10 1 1
             = Some (True, cr1, font_size, scale_x, scale_y)
           \<and> (scale_x' = scale_x \<or> scale_y' = scale_y)"
proof -
  from pdf_scaling_v_text_success [OF run] obtain cr1 sx sy where
    l: "pdf_scaling_v_loop (u8_split_chars [] utf8_text) width height threshold cr 10 1 1
          = Some (True, cr1, font_size, sx, sy)"
    and a: "pdf_scaling_v_aspect threshold
                 (fst (pdf_get_v_text_width_and_height cr' (u8_split_chars [] utf8_text)))
                 (snd (pdf_get_v_text_width_and_height cr' (u8_split_chars [] utf8_text)))
                 (real (length (u8_split_chars [] utf8_text))) sx sy = (scale_x', scale_y')"
    by blast
  from pdf_scaling_v_aspect_one_axis [OF a] l show ?thesis by blast
qed

theorem pdf_scaling_v_text_one_axis_witness:
  "pdf_scaling_v_text example_font [0x6C] 2 7 (3 / 2)
     = Some (True, cairo_set_font_size example_font 10, 10, 1, 3 / 7)
   \<and> pdf_scaling_v_loop (u8_split_chars [] [0x6C]) 2 7 (3 / 2) example_font 10 1 1
        = Some (True, cairo_set_font_size example_font 10, 10, 1, 1)
   \<and> (\<exists>cr1 scale_x scale_y.
         pdf_scaling_v_loop (u8_split_chars [] [0x6C]) 2 7 (3 / 2) example_font 10 1 1
           = Some (True, cr1, 10, scale_x, scale_y)
         \<and> ((1::real) = scale_x \<or> (3 / 7 :: real) = scale_y))"
  using pdf_scaling_v_text_one_axis [OF example_v_text_l] example_v_text_l example_v_loop_l
  by (simp add: example_split)

section \<open>The gap loop of the vertical layout\<close>

lemma example_v_text_dot:
  "pdf_scaling_v_text example_font [0x2E] 2 2 (3 / 2)
     = Some (True, cairo_set_font_size example_font 10, 10, 1, 1)"
proof -
  have "pdf_scaling_v_loop [[0x2E]] 2 2 (3 / 2) example_font 10 1 1
     = Some (True, cairo_set_font_size example_font 10, 10, 1, 1)"
    by (subst pdf_scaling_v_loop.simps) (simp add: example_v_measure)
  then show ?thesis
    by (simp add: pdf_scaling_v_text_def c_str_def example_split example_v_measure
        pdf_scaling_v_aspect_def)
qed

lemma pdf_draw_v_gap_loop_some:
  assumes "pdf_draw_v_gap_loop cr chars height font_size scale_x scale_y each_blank_height = Some r"
  shows "\<not> (0 \<le> snd (pdf_get_v_text_width_and_height cr chars) \<and> 0 \<le> scale_y
            \<and> height / (real (length chars) + 1) < font_size / 5
            \<and> each_blank_height < font_size / 5)"
  using assms
proof (induction rule: pdf_draw_v_gap_loop.raw_induct [rotated 1, consumes 1])
  case (1 loop cr chars height font_size scale_x scale_y each_blank_height r)
  let ?th = "snd (pdf_get_v_text_width_and_height cr chars)"
  let ?n = "real (length chars) + 1"
  show ?case
  proof
    assume inv: "0 \<le> ?th \<and> 0 \<le> scale_y \<and> height / ?n < font_size / 5
                 \<and> each_blank_height < font_size / 5"
    let ?gap = "(height - ?th * (scale_y * 0.95)) / ?n"
    from inv 1(2) have "loop cr chars height font_size (scale_x * 0.95) (scale_y * 0.95) ?gap = Some r"
      by (simp add: Let_def)
    then have ih: "\<not> (0 \<le> ?th \<and> 0 \<le> scale_y * 0.95 \<and> height / ?n < font_size / 5
                    \<and> ?gap < font_size / 5)"
      by (rule 1(1))
    have n: "0 < ?n" by simp
    from inv have lim: "height / ?n < font_size / 5" by blast
    from inv have th: "0 \<le> ?th" by blast
    from inv have sy: "0 \<le> scale_y * 0.95" by simp
    from th sy have "0 \<le> ?th * (scale_y * 0.95)" by (rule mult_nonneg_nonneg)
    then have "height - ?th * (scale_y * 0.95) \<le> height" by simp
    then have "?gap \<le> height / ?n" using n by (intro divide_right_mono) simp_all
    then have "?gap < font_size / 5" using lim by (rule le_less_trans)
    with th sy lim ih show False by blast
  qed
qed

lemma pdf_draw_v_gap_loop_never_ends:
  assumes "0 \<le> snd (pdf_get_v_text_width_and_height cr chars)" and "0 \<le> scale_y"
    and "height / (real (length chars) + 1) < font_size / 5"
    and "each_blank_height < font_size / 5"
  shows "pdf_draw_v_gap_loop cr chars height font_size scale_x scale_y each_blank_height = None"
proof (cases "pdf_draw_v_gap_loop cr chars height font_size scale_x scale_y each_blank_height")
  case None
  then show ?thesis .
next
  case (Some r)
  from pdf_draw_v_gap_loop_some [OF Some] assms show ?thesis by simp
qed

lemma example_font_not_cjk:
  "\<not> pdf_is_font_japanese example_font" "\<not> pdf_is_font_chinese example_font"
  "\<not> pdf_is_font_korean example_font"
  by (simp_all add: pdf_is_font_japanese_def pdf_is_font_chinese_def pdf_is_font_korean_def
      cairo_text_extents_def cairo_set_font_size_def example_font_def glyph_def c_str_def)

lemma pdf_draw_v_text_diverges_when:
  assumes nonempty: "c_str utf8_text \<noteq> []"
    and plain: "\<not> pdf_is_font_japanese cr" "\<not> pdf_is_font_chinese cr" "\<not> pdf_is_font_korean cr"
    and fit: "pdf_scaling_v_text cr utf8_text width height threshold
                = Some (True, cr1, font_size, scale_x, scale_y)"
    and th: "0 \<le> snd (pdf_get_v_text_width_and_height cr1 (u8_split_chars [] utf8_text))"
    and sy: "0 \<le> scale_y"
    and low: "height / (real (length (u8_split_chars [] utf8_text)) + 1) < font_size / 5"
  shows "pdf_draw_v_text u8_locale_map_text cr utf8_text width height threshold = None"
proof -
  let ?chars = "u8_split_chars [] utf8_text"
  let ?th = "snd (pdf_get_v_text_width_and_height cr1 ?chars)"
  let ?n = "real (length ?chars) + 1"
  from th sy have "0 \<le> ?th * scale_y" by (rule mult_nonneg_nonneg)
  then have "height - ?th * scale_y \<le> height" by simp
  then have "(height - ?th * scale_y) / ?n \<le> height / ?n"
    by (intro divide_right_mono) simp_all
  then have "(height - ?th * scale_y) / ?n < font_size / 5" using low by (rule le_less_trans)
  with th sy low
  have "pdf_draw_v_gap_loop cr1 ?chars height font_size scale_x scale_y
          ((height - ?th * scale_y) / ?n) = None"
    by (intro pdf_draw_v_gap_loop_never_ends)
  with nonempty plain fit show ?thesis by (simp add: pdf_draw_v_text_def Let_def)
qed

subsection \<open>A column of one full stop on an A4 page\<close>

text \<open>
  The search loop of the vertical solver on the column of one full stop of the example
  font, whose glyph is a fifth of the font size wide and high: the font phase, the phase
  that enlarges \<open>scale_x\<close>, and the exit. The box is the printable area of an A4 page in
  landscape with margins of 8 mm, \<open>101160 / 127\<close> by \<open>69840 / 127\<close> points.
\<close>

lemma example_v_measure_dot:
  "0 < f \<Longrightarrow> pdf_get_v_text_width_and_height (cairo_set_font_size example_font f) [[0x2E]]
     = (f / 5, f / 5)"
  by (simp add: pdf_get_v_text_width_and_height_def example_plain_chars
      cairo_set_font_size_def cairo_text_extents_def example_font_def glyph_def c_str_def)

lemma example_v_loop_font_step:
  assumes "font_size < 10000" and "0 < font_size"
    and "font_size / 5 * scale_x < width * 0.95" and "font_size / 5 * scale_y < height * 0.95"
  shows "pdf_scaling_v_loop [[0x2E]] width height threshold
           (cairo_set_font_size example_font a) font_size scale_x scale_y
         = pdf_scaling_v_loop [[0x2E]] width height threshold
             (cairo_set_font_size example_font font_size) (font_size * 1.05) scale_x scale_y"
  using assms
  by (subst pdf_scaling_v_loop.simps) (simp add: example_v_measure_dot Let_def)

lemma example_v_loop_font_phase:
  assumes "10 * 1.05 ^ n < (10000::real)"
    and "10 * 1.05 ^ n / 5 < width * 0.95" and "10 * 1.05 ^ n / 5 < height * 0.95"
  shows "pdf_scaling_v_loop [[0x2E]] width height threshold
           (cairo_set_font_size example_font a) 10 1 1
         = pdf_scaling_v_loop [[0x2E]] width height threshold
             (cairo_set_font_size example_font (10 * 1.05 ^ n)) (10 * 1.05 ^ Suc n) 1 1"
  using assms
proof (induction n arbitrary: a)
  case 0
  then show ?case using example_v_loop_font_step [of 10 1 width 1 height threshold a] by simp
next
  case (Suc n)
  have mono: "(10::real) * 1.05 ^ n \<le> 10 * 1.05 ^ Suc n" by simp
  have pos: "(0::real) < 10 * 1.05 ^ Suc n" by simp
  from Suc.prems mono have
    "10 * 1.05 ^ n < (10000::real)" "10 * 1.05 ^ n / 5 < width * 0.95"
    "10 * 1.05 ^ n / 5 < height * 0.95"
    by linarith+
  from Suc.IH [OF this] have
    "pdf_scaling_v_loop [[0x2E]] width height threshold (cairo_set_font_size example_font a) 10 1 1
     = pdf_scaling_v_loop [[0x2E]] width height threshold
         (cairo_set_font_size example_font (10 * 1.05 ^ n)) (10 * 1.05 ^ Suc n) 1 1" .
  also have "\<dots> = pdf_scaling_v_loop [[0x2E]] width height threshold
         (cairo_set_font_size example_font (10 * 1.05 ^ Suc n)) (10 * 1.05 ^ Suc n * 1.05) 1 1"
    using Suc.prems pos by (intro example_v_loop_font_step) simp_all
  finally show ?case by (simp add: mult.assoc mult.commute)
qed

lemma example_v_loop_wide_step:
  assumes "font_size < 10000" and "0 < font_size" and "\<not> threshold < 1.1"
    and "font_size / 5 * scale_x < width * 0.95" and "\<not> font_size / 5 * scale_y < height * 0.95"
  shows "pdf_scaling_v_loop [[0x2E]] width height threshold
           (cairo_set_font_size example_font a) font_size scale_x scale_y
         = pdf_scaling_v_loop [[0x2E]] width height threshold
             (cairo_set_font_size example_font font_size) font_size (scale_x * 1.05) scale_y"
  using assms
  by (subst pdf_scaling_v_loop.simps) (simp add: example_v_measure_dot Let_def)

lemma example_v_loop_wide_phase:
  assumes "font_size < 10000" and "0 < font_size" and "\<not> threshold < 1.1"
    and "font_size / 5 * 1.05 ^ k < width * 0.95" and "\<not> font_size / 5 * scale_y < height * 0.95"
  shows "pdf_scaling_v_loop [[0x2E]] width height threshold
           (cairo_set_font_size example_font a) font_size 1 scale_y
         = pdf_scaling_v_loop [[0x2E]] width height threshold
             (cairo_set_font_size example_font font_size) font_size (1.05 ^ Suc k) scale_y"
  using assms(4)
proof (induction k arbitrary: a)
  case 0
  then show ?case
    using example_v_loop_wide_step [OF assms(1,2,3) _ assms(5), of 1 width a] by simp
next
  case (Suc k)
  have "font_size / 5 * 1.05 ^ k \<le> font_size / 5 * 1.05 ^ Suc k" using assms(2) by simp
  with Suc.prems have "font_size / 5 * 1.05 ^ k < width * 0.95" by linarith
  from Suc.IH [OF this] have
    "pdf_scaling_v_loop [[0x2E]] width height threshold
           (cairo_set_font_size example_font a) font_size 1 scale_y
         = pdf_scaling_v_loop [[0x2E]] width height threshold
             (cairo_set_font_size example_font font_size) font_size (1.05 ^ Suc k) scale_y" .
  also have "\<dots> = pdf_scaling_v_loop [[0x2E]] width height threshold
             (cairo_set_font_size example_font font_size) font_size (1.05 ^ Suc k * 1.05) scale_y"
    using Suc.prems by (intro example_v_loop_wide_step [OF assms(1,2,3) _ assms(5)]) simp
  finally show ?case by (simp add: mult.commute)
qed

lemma example_v_loop_break:
  assumes "font_size < 10000" and "0 < font_size"
    and "\<not> font_size / 5 * scale_x < width * 0.95" and "\<not> font_size / 5 * scale_y < height * 0.95"
  shows "pdf_scaling_v_loop [[0x2E]] width height threshold
           (cairo_set_font_size example_font a) font_size scale_x scale_y
         = Some (True, cairo_set_font_size example_font font_size, font_size, scale_x, scale_y)"
  using assms
  by (subst pdf_scaling_v_loop.simps) (simp add: example_v_measure_dot Let_def)

lemma example_a4_numbers:
  "(10::real) * 1.05 ^ 114 < 10000" "(10::real) * 1.05 ^ 115 < 10000"
  "(10::real) * 1.05 ^ 114 / 5 < 101160 / 127 * 0.95"
  "(10::real) * 1.05 ^ 114 / 5 < 69840 / 127 * 0.95"
  "\<not> (10::real) * 1.05 ^ 115 / 5 * 1 < 69840 / 127 * 0.95"
  "(10::real) * 1.05 ^ 115 / 5 * 1.05 ^ 6 < 101160 / 127 * 0.95"
  "\<not> (10::real) * 1.05 ^ 115 / 5 * 1.05 ^ 7 < 101160 / 127 * 0.95"
  "\<not> (1.05::real) ^ 7 > 3 / 2" "\<not> 1 / (1.05::real) ^ 7 > 3 / 2"
  "(69840 / 127 :: real) / 2 < 10 * 1.05 ^ 115 / 5"
  by (simp_all add: power_divide)

lemma example_v_loop_a4:
  "pdf_scaling_v_loop [[0x2E]] (101160 / 127) (69840 / 127) (3 / 2) example_font 10 1 1
     = Some (True, cairo_set_font_size example_font (10 * 1.05 ^ 115), 10 * 1.05 ^ 115,
             1.05 ^ 7, 1)"
proof -
  let ?w = "101160 / 127 :: real" and ?h = "69840 / 127 :: real"
  let ?f = "10 * 1.05 ^ 115 :: real"
  have cr: "example_font = cairo_set_font_size example_font 12"
    by (simp add: cairo_set_font_size_def example_font_def)
  have pos: "0 < ?f" by simp
  have "pdf_scaling_v_loop [[0x2E]] ?w ?h (3 / 2) (cairo_set_font_size example_font 12) 10 1 1
     = pdf_scaling_v_loop [[0x2E]] ?w ?h (3 / 2)
         (cairo_set_font_size example_font (10 * 1.05 ^ 114)) (10 * 1.05 ^ Suc 114) 1 1"
    by (rule example_v_loop_font_phase) (rule example_a4_numbers)+
  also have "(10::real) * 1.05 ^ Suc 114 = ?f" by (simp only: eval_nat_numeral)
  also have "pdf_scaling_v_loop [[0x2E]] ?w ?h (3 / 2)
         (cairo_set_font_size example_font (10 * 1.05 ^ 114)) ?f 1 1
     = pdf_scaling_v_loop [[0x2E]] ?w ?h (3 / 2)
         (cairo_set_font_size example_font ?f) ?f (1.05 ^ Suc 6) 1"
    using example_a4_numbers(2,5,6) pos
    by (intro example_v_loop_wide_phase) simp_all
  also have "(1.05::real) ^ Suc 6 = 1.05 ^ 7" by (simp only: eval_nat_numeral)
  also have "pdf_scaling_v_loop [[0x2E]] ?w ?h (3 / 2)
         (cairo_set_font_size example_font ?f) ?f (1.05 ^ 7) 1
     = Some (True, cairo_set_font_size example_font ?f, ?f, 1.05 ^ 7, 1)"
    using example_a4_numbers(2,5,7) pos
    by (intro example_v_loop_break) simp_all
  finally show ?thesis using cr by simp
qed


lemma example_v_text_a4:
  "pdf_scaling_v_text example_font [0x2E] (101160 / 127) (69840 / 127) (3 / 2)
     = Some (True, cairo_set_font_size example_font (10 * 1.05 ^ 115), 10 * 1.05 ^ 115,
             1.05 ^ 7, 1)"
proof -
  define f :: real where "f = 10 * 1.05 ^ 115"
  define s :: real where "s = 1.05 ^ 7"
  have pos: "0 < f" by (simp add: f_def)
  have loop: "pdf_scaling_v_loop [[0x2E]] (101160 / 127) (69840 / 127) (3 / 2) example_font 10 1 1
     = Some (True, cairo_set_font_size example_font f, f, s, 1)"
    unfolding f_def s_def by (rule example_v_loop_a4)
  have m: "pdf_get_v_text_width_and_height (cairo_set_font_size example_font f) [[0x2E]]
             = (f / 5, f / 5)"
    using pos by (rule example_v_measure_dot)
  have r: "(f / 5 * s) / (f / 5 * 1 / 1) = s" "(f / 5 * 1 / 1) / (f / 5 * s) = 1 / s"
    using pos by simp_all
  have "\<not> s > 3 / 2" "\<not> 1 / s > 3 / 2"
    unfolding s_def by (rule example_a4_numbers)+
  then have asp: "pdf_scaling_v_aspect (3 / 2) (f / 5) (f / 5) 1 s 1 = (s, 1)"
    unfolding pdf_scaling_v_aspect_def r by simp
  have "pdf_scaling_v_text example_font [0x2E] (101160 / 127) (69840 / 127) (3 / 2)
     = Some (True, cairo_set_font_size example_font f, f, s, 1)"
    by (simp add: pdf_scaling_v_text_def c_str_def example_split loop m asp)
  then show ?thesis by (simp only: f_def s_def)
qed

text \<open>
  Claim C4 says that, for every column whose fit succeeds, the loop of the vertical layout
  that shrinks both scale factors by 5% ends. It does not: the blank never exceeds
  \<open>height / (N + 1)\<close>, so when that is below a fifth of the font size the loop has no
  way out (\<open>pdf_draw_v_gap_loop_never_ends\<close>). Two columns of one full stop show it. In a
  box of 2 by 2 the fit succeeds at once with font size 10 and both scale factors 1; the
  blank is below \<open>2 / 2 = 1\<close> for ever and the floor is \<open>10 / 5 = 2\<close>. In the printable
  area of an A4 page the fit succeeds with font size \<open>10 * 1.05 ^ 115\<close>, about 2734; the
  blank is below 275 for ever and the floor is about 547.
\<close>

theorem pdf_draw_v_text_never_returns:
  "pdf_scaling_v_text example_font [0x2E] 2 2 (3 / 2)
     = Some (True, cairo_set_font_size example_font 10, 10, 1, 1)
   \<and> pdf_draw_v_text (\<lambda>utf8. utf8) example_font [0x2E] 2 2 (3 / 2) = None
   \<and> pdf_scaling_v_text example_font [0x2E] (101160 / 127) (69840 / 127) (3 / 2)
     = Some (True, cairo_set_font_size example_font (10 * 1.05 ^ 115), 10 * 1.05 ^ 115,
             1.05 ^ 7, 1)
   \<and> pdf_draw_v_text (\<lambda>utf8. utf8) example_font [0x2E] (101160 / 127) (69840 / 127) (3 / 2)
     = None"
proof -
  have small: "pdf_draw_v_text (\<lambda>utf8. utf8) example_font [0x2E] 2 2 (3 / 2) = None"
    by (rule pdf_draw_v_text_diverges_when [OF _ example_font_not_cjk example_v_text_dot])
       (simp_all add: c_str_def example_split example_v_measure)
  define f :: real where "f = 10 * 1.05 ^ 115"
  have pos: "0 < f" by (simp add: f_def)
  have low: "(69840 / 127 :: real) / 2 < f / 5"
    unfolding f_def by (rule example_a4_numbers)
  have fit: "pdf_scaling_v_text example_font [0x2E] (101160 / 127) (69840 / 127) (3 / 2)
     = Some (True, cairo_set_font_size example_font f, f, 1.05 ^ 7, 1)"
    unfolding f_def by (rule example_v_text_a4)
  have "pdf_draw_v_text (\<lambda>utf8. utf8) example_font [0x2E] (101160 / 127) (69840 / 127) (3 / 2)
     = None"
    using pos low
    by (intro pdf_draw_v_text_diverges_when [OF _ example_font_not_cjk fit])
       (simp_all add: c_str_def example_split example_v_measure_dot)
  with small example_v_text_dot example_v_text_a4 show ?thesis by (intro conjI)
qed


end
